theory Spec2Isabelle
  imports Main
begin

section \<open>Strings\<close>

text \<open>
  A JavaScript string is a sequence of UTF-16 code units. The model reads a \<^typ>\<open>string\<close>
  as such a sequence restricted to the code units below 256 (Latin-1), one \<^typ>\<open>char\<close>
  per code unit. On that range the character classes of the regular expressions of the
  source are: a line terminator is LF or CR (the dot matches everything else), and white
  space (\<^verbatim>\<open>\s\<close>, also what \<^verbatim>\<open>trim\<close> removes) is TAB, LF, VT, FF, CR, SPACE and
  NBSP.
\<close>

definition isLineTerminator :: "char \<Rightarrow> bool" where
  "isLineTerminator c = (c = CHR 0x0A \<or> c = CHR 0x0D)"

definition isSpace :: "char \<Rightarrow> bool" where
  "isSpace c = (c = CHR 0x09 \<or> c = CHR 0x0A \<or> c = CHR 0x0B \<or> c = CHR 0x0C \<or> c = CHR 0x0D
     \<or> c = CHR 0x20 \<or> c = CHR 0xA0)"

text \<open>\<^verbatim>\<open>String.prototype.toLowerCase\<close> on the Latin-1 range: A to Z, and the accented
  capitals U+00C0 to U+00DE without the multiplication sign U+00D7, move up by 32.\<close>

definition toLowerChar :: "char \<Rightarrow> char" where
  "toLowerChar c =
     (let n = (of_char c :: nat)
      in if (65 \<le> n \<and> n \<le> 90) \<or> (192 \<le> n \<and> n \<le> 222 \<and> n \<noteq> 215)
         then char_of (n + 32) else c)"

definition toLowerCase :: "string \<Rightarrow> string" where
  "toLowerCase s = map toLowerChar s"

text \<open>\<^verbatim>\<open>String.prototype.trim\<close>.\<close>

definition trim :: "string \<Rightarrow> string" where
  "trim s = rev (dropWhile isSpace (rev (dropWhile isSpace s)))"

text \<open>\<^verbatim>\<open>s.split(sep)\<close> for a one-character separator: never the empty list, the empty
  string gives one empty piece.\<close>

fun split :: "char \<Rightarrow> string \<Rightarrow> string list" where
  "split sep [] = [[]]"
| "split sep (c # cs) =
     (if c = sep then [] # split sep cs
      else (case split sep cs of
              [] \<Rightarrow> [[c]]
            | p # ps \<Rightarrow> (c # p) # ps))"

text \<open>\<^verbatim>\<open>s.replaceAll("//", "/")\<close>: one pass from the left over non-overlapping
  occurrences.\<close>

fun replaceAllSlashSlash :: "string \<Rightarrow> string" where
  "replaceAllSlashSlash (a # b # cs) =
     (if a = CHR ''/'' \<and> b = CHR ''/'' then CHR ''/'' # replaceAllSlashSlash cs
      else a # replaceAllSlashSlash (b # cs))"
| "replaceAllSlashSlash cs = cs"

section \<open>The regular expressions of the module\<close>

subsection \<open>The UUID pattern of \<^verbatim>\<open>findLastUuid\<close>\<close>

text \<open>
  \<^verbatim>\<open>/[0-9a-f]{8}-[0-9a-f]{4}-[0-9a-f]{4}-[0-9a-f]{4}-[0-9a-f]{12}/gi\<close>.
  With the flag \<^verbatim>\<open>i\<close> the class \<^verbatim>\<open>[0-9a-f]\<close> also takes A to F.
\<close>

definition isHex :: "char \<Rightarrow> bool" where
  "isHex c = (c \<in> set ''0123456789abcdefABCDEF'')"

fun hexes :: "nat \<Rightarrow> string \<Rightarrow> string option" where
  "hexes 0 s = Some s"
| "hexes (Suc n) [] = None"
| "hexes (Suc n) (c # cs) = (if isHex c then hexes n cs else None)"

fun dash :: "string \<Rightarrow> string option" where
  "dash [] = None"
| "dash (c # cs) = (if c = CHR ''-'' then Some cs else None)"

text \<open>The pattern matched at the start of a string; the result is what follows the match.\<close>

definition uuidPrefix :: "string \<Rightarrow> string option" where
  "uuidPrefix s =
     Option.bind (hexes 8 s) (\<lambda>s1. Option.bind (dash s1) (\<lambda>s2.
     Option.bind (hexes 4 s2) (\<lambda>s3. Option.bind (dash s3) (\<lambda>s4.
     Option.bind (hexes 4 s4) (\<lambda>s5. Option.bind (dash s5) (\<lambda>s6.
     Option.bind (hexes 4 s6) (\<lambda>s7. Option.bind (dash s7) (\<lambda>s8.
     hexes 12 s8))))))))"

text \<open>\<^verbatim>\<open>url.match(uuidRegex)\<close> with the flag \<^verbatim>\<open>g\<close>: the matches found scanning from the
  left, each search resuming where the previous match ended.\<close>

fun matchAllUuid :: "string \<Rightarrow> string list" where
  "matchAllUuid [] = []"
| "matchAllUuid (c # cs) =
     (if uuidPrefix (c # cs) \<noteq> None then take 36 (c # cs) # matchAllUuid (drop 35 cs)
      else matchAllUuid cs)"

definition findLastUuid :: "string \<Rightarrow> string option" where
  "findLastUuid url =
     (case matchAllUuid url of [] \<Rightarrow> None | m # ms \<Rightarrow> Some (last (m # ms)))"

subsection \<open>The locale line pattern of \<^verbatim>\<open>parseImageBlock\<close>\<close>

text \<open>
  \<^verbatim>\<open>/\s*(..)\s*(https:\/\/.*)/.exec(l)\<close>. The expression has no anchor, so the engine tries
  the start positions from the left. At a start position the first \<^verbatim>\<open>\s*\<close> is greedy and
  gives white space back one character at a time (\<open>tryLead\<close>); what follows it is tried
  by \<open>tryTail\<close>: two characters that are not line terminators, all the white space
  after them (giving any of it back cannot help, as the next character must be \<^verbatim>\<open>h\<close>), the
  literal \<^verbatim>\<open>https://\<close>, and the rest of the line up to a line terminator. The result
  holds the two capture groups.
\<close>

fun tryTail :: "string \<Rightarrow> (string \<times> string) option" where
  "tryTail (c1 # c2 # r) =
     (if \<not> isLineTerminator c1 \<and> \<not> isLineTerminator c2
      then (let r' = dropWhile isSpace r
            in if take 8 r' = ''https://''
               then Some ([c1, c2], takeWhile (\<lambda>c. \<not> isLineTerminator c) r')
               else None)
      else None)"
| "tryTail r = None"

fun tryLead :: "nat \<Rightarrow> string \<Rightarrow> (string \<times> string) option" where
  "tryLead 0 s = tryTail s"
| "tryLead (Suc a) s =
     (case tryTail (drop (Suc a) s) of
        Some m \<Rightarrow> Some m
      | None \<Rightarrow> tryLead a s)"

definition matchHere :: "string \<Rightarrow> (string \<times> string) option" where
  "matchHere s = tryLead (length (takeWhile isSpace s)) s"

fun execLocaleLine :: "string \<Rightarrow> (string \<times> string) option" where
  "execLocaleLine [] = matchHere []"
| "execLocaleLine (c # cs) =
     (case matchHere (c # cs) of
        Some m \<Rightarrow> Some m
      | None \<Rightarrow> execLocaleLine cs)"

section \<open>Node's \<^verbatim>\<open>path.posix.join\<close>\<close>

text \<open>
  \<^verbatim>\<open>Path.posix.join\<close> glues its non-empty arguments with a slash and normalises the
  result: empty segments and \<^verbatim>\<open>.\<close> vanish, \<^verbatim>\<open>..\<close> removes the segment before it (or
  stays, in a relative path, when nothing is left to remove), a leading and a trailing
  slash are kept, and an empty result is written \<^verbatim>\<open>.\<close>. The segments kept so far are
  held in reverse.
\<close>

fun joinWith :: "string \<Rightarrow> string list \<Rightarrow> string" where
  "joinWith sep [] = []"
| "joinWith sep [x] = x"
| "joinWith sep (x # y # ys) = x @ sep @ joinWith sep (y # ys)"

fun normalizeSegments :: "bool \<Rightarrow> string list \<Rightarrow> string list \<Rightarrow> string list" where
  "normalizeSegments allowAboveRoot kept [] = rev kept"
| "normalizeSegments allowAboveRoot kept (seg # segs) =
     (if seg = [] \<or> seg = ''.'' then normalizeSegments allowAboveRoot kept segs
      else if seg = ''..'' then
        (case kept of
           [] \<Rightarrow> normalizeSegments allowAboveRoot (if allowAboveRoot then [''..''] else []) segs
         | lastSeg # below \<Rightarrow>
             if lastSeg = ''..''
             then normalizeSegments allowAboveRoot
                    (if allowAboveRoot then ''..'' # kept else kept) segs
             else normalizeSegments allowAboveRoot below segs)
      else normalizeSegments allowAboveRoot (seg # kept) segs)"

definition posix_normalize :: "string \<Rightarrow> string" where
  "posix_normalize path =
     (case path of
        [] \<Rightarrow> ''.''
      | c # cs \<Rightarrow>
          (let isAbsolute = (c = CHR ''/'');
               trailingSeparator = (last (c # cs) = CHR ''/'');
               res = joinWith ''/'' (normalizeSegments (\<not> isAbsolute) [] (split CHR ''/'' path))
           in if res = [] then (if isAbsolute then ''/'' else if trailingSeparator then ''./'' else ''.'')
              else (if isAbsolute then ''/'' else []) @ res
                   @ (if trailingSeparator then ''/'' else [])))"

definition posix_join :: "string \<Rightarrow> string \<Rightarrow> string" where
  "posix_join a b =
     (if a = [] \<and> b = [] then ''.''
      else if a = [] then posix_normalize b
      else if b = [] then posix_normalize a
      else posix_normalize (a @ ''/'' @ b))"

section \<open>Data model\<close>

type_synonym buffer = string

record FileTypeResult =
  ext :: string
  mime :: string

record IDocuNotionContextPageInfo =
  directoryContainingMarkdown :: string
  relativeFilePathToFolderContainingPage :: string
  slug :: string

record localizedUrl =
  iso632Code :: string
  url :: string

text \<open>\<^verbatim>\<open>ImageSet\<close>: the fields marked \<^verbatim>\<open>?\<close> in the source are options, except the caption,
  which \<open>parseImageBlock\<close> always sets to a string.\<close>

record ImageSet =
  primaryUrl :: string
  caption :: string
  localizedUrls :: "localizedUrl list"
  pageInfo :: "IDocuNotionContextPageInfo option"
  primaryBuffer :: "buffer option"
  fileType :: "FileTypeResult option"
  primaryFileOutputPath :: "string option"
  outputFileName :: "string option"
  filePathToUseInMarkdown :: "string option"

text \<open>The option \<^verbatim>\<open>imageFileNameFormat\<close>; the source tests it against
  \<^verbatim>\<open>"content-hash"\<close> and \<^verbatim>\<open>"legacy"\<close>, and every other value is the default format.\<close>

datatype imageFileNameFormat = FormatDefault | FormatLegacy | FormatContentHash

record options =
  imageFileNameFormat :: imageFileNameFormat
  forceRefreshImages :: bool

text \<open>\<^verbatim>\<open>IDocuNotionContext\<close>, as far as this module reads it.\<close>

record IDocuNotionContext =
  context_options :: options
  context_pageInfo :: IDocuNotionContextPageInfo

text \<open>A Notion image block: the image is hosted by Notion (\<^verbatim>\<open>file.url\<close>) or points
  elsewhere (\<^verbatim>\<open>external.url\<close>); its caption is a list of rich texts, of which the module
  reads the \<^verbatim>\<open>plain_text\<close>.\<close>

datatype imageSource = File string | External string

record image =
  source :: imageSource
  image_caption :: "string list"

record block =
  block_id :: string
  block_image :: image

datatype error =
    ConfigurationError
  | FetchError
  | URIError
  | TypeError
  | PlanError
  | RmError string

text \<open>
  What the module calls and the sources do not hold: SHA-256 with a hexadecimal digest
  (\<^verbatim>\<open>crypto\<close>), \<^verbatim>\<open>decodeURI\<close> (\<open>None\<close> when it throws on a malformed
  escape), the sniffing of \<^verbatim>\<open>file-type\<close>, and \<^verbatim>\<open>makeImagePersistencePlan\<close> of
  \<^verbatim>\<open>MakeImagePersistencePlan.ts\<close>, which for the content-hash format yields the output
  file name, the primary output path and the path to use in the markdown (\<open>None\<close> when
  it throws). They are parameters of the model.
\<close>

record env =
  sha256hex :: "string \<Rightarrow> string"
  decodeURI :: "string \<Rightarrow> string option"
  fileTypeFromBuffer :: "buffer \<Rightarrow> FileTypeResult option"
  makeImagePersistencePlan ::
    "options \<Rightarrow> ImageSet \<Rightarrow> string \<Rightarrow> string \<Rightarrow> string \<Rightarrow> (string \<times> string \<times> string) option"

section \<open>Naming and path planning\<close>

definition hashOfString :: "env \<Rightarrow> string \<Rightarrow> string" where
  "hashOfString e input = take 8 (sha256hex e input)"

text \<open>\<^verbatim>\<open>xs.pop()\<close> as a value: the last element, nothing for the empty array.\<close>

definition pop :: "'a list \<Rightarrow> 'a option" where
  "pop xs = (case rev xs of [] \<Rightarrow> None | x # _ \<Rightarrow> Some x)"

text \<open>\<^verbatim>\<open>xs[0]\<close> of an array of strings, used where the result goes on as a string.\<close>

definition first :: "string list \<Rightarrow> string" where
  "first xs = (case xs of [] \<Rightarrow> ''undefined'' | x # _ \<Rightarrow> x)"

text \<open>\<^verbatim>\<open>slug.replace(/^\//, "")\<close>.\<close>

fun removeLeadingSlash :: "string \<Rightarrow> string" where
  "removeLeadingSlash (c # cs) = (if c = CHR ''/'' then cs else c # cs)"
| "removeLeadingSlash [] = []"

text \<open>\<open>urlBeforeQuery\<close> and \<open>imageFileExtension\<close> as the planner computes them:
  \<^verbatim>\<open>primaryUrl.split("?")[0]\<close>, and \<^verbatim>\<open>urlBeforeQuery.split(".").pop()\<close> with the
  fallback to png when that is undefined or empty.\<close>

definition beforeQuery :: "string \<Rightarrow> string" where
  "beforeQuery u = first (split CHR ''?'' u)"

definition extensionFromUrl :: "string \<Rightarrow> string" where
  "extensionFromUrl u =
     (case pop (split CHR ''.'' u) of
        None \<Rightarrow> ''png''
      | Some x \<Rightarrow> if x = [] then ''png'' else x)"

definition makeImagePersistencePlanWithoutBuffer ::
  "env \<Rightarrow> options \<Rightarrow> ImageSet \<Rightarrow> string \<Rightarrow> string \<Rightarrow> string \<Rightarrow> error + ImageSet" where
  "makeImagePersistencePlanWithoutBuffer e opts imageSet imageBlockId imageOutputRootPath prefix =
     (let urlBeforeQuery = beforeQuery (primaryUrl imageSet);
          imageFileExtension = extensionFromUrl urlBeforeQuery;
          name =
            (if imageFileNameFormat opts = FormatLegacy
             then (let thingToHash =
                         (case findLastUuid urlBeforeQuery of
                            Some u \<Rightarrow> u
                          | None \<Rightarrow> urlBeforeQuery)
                   in hashOfString e thingToHash @ ''.'' @ imageFileExtension)
             else (let pageSlugPart =
                         (case pageInfo imageSet of
                            None \<Rightarrow> []
                          | Some p \<Rightarrow>
                              if slug p \<noteq> [] then removeLeadingSlash (slug p) @ ''.'' else [])
                   in pageSlugPart @ imageBlockId @ ''.'' @ imageFileExtension));
          root =
            (if imageOutputRootPath \<noteq> [] then Inr imageOutputRootPath
             else (case pageInfo imageSet of
                     None \<Rightarrow> Inl TypeError
                   | Some p \<Rightarrow> Inr (directoryContainingMarkdown p)))
      in case root of
           Inl err \<Rightarrow> Inl err
         | Inr dir \<Rightarrow>
             (case decodeURI e name of
                None \<Rightarrow> Inl URIError
              | Some decoded \<Rightarrow>
                  Inr (imageSet\<lparr>
                    outputFileName := Some name,
                    primaryFileOutputPath := Some (posix_join dir decoded),
                    filePathToUseInMarkdown :=
                      Some ((if prefix \<noteq> [] then prefix else ''.'') @ ''/'' @ name)\<rparr>)))"

section \<open>The world: files, network, module variables\<close>

text \<open>
  A call of \<^verbatim>\<open>fetch\<close> either rejects (no connection, a timeout of the transport) or
  resolves with a response, whatever its HTTP status.
\<close>

record response =
  status :: nat
  body :: buffer

text \<open>The calls the module makes to the file system and the network, in order.\<close>

datatype event =
    ExistsSync string
  | Fetch string
  | WriteAsset string buffer
  | Rm string
  | Mkdir string

text \<open>
  The state the module works on: the files of the output tree, the network (\<open>None\<close>:
  the fetch rejects), the four module-level variables of the source, and the record of
  the calls made so far. A function of the module takes the world and returns its result,
  a value or the error thrown, with the world it leaves behind; what was changed before a
  throw stays changed.
\<close>

record world =
  files :: "string \<rightharpoonup> buffer"
  network :: "string \<Rightarrow> response option"
  existingImagesNotSeenYetInPull :: "string list"
  imageOutputPath :: string
  imagePrefix :: string
  locales :: "string list option"
  trace :: "event list"

text \<open>The module as it is loaded: lines 21 to 24 of the source.\<close>

definition moduleLoaded :: "world \<Rightarrow> bool" where
  "moduleLoaded w =
     (existingImagesNotSeenYetInPull w = [] \<and> imageOutputPath w = [] \<and> imagePrefix w = []
      \<and> locales w = None)"

definition logEvent :: "event \<Rightarrow> world \<Rightarrow> world" where
  "logEvent ev w = w\<lparr>trace := trace w @ [ev]\<rparr>"

definition existsSync :: "string \<Rightarrow> world \<Rightarrow> bool \<times> world" where
  "existsSync path w = (files w path \<noteq> None, logEvent (ExistsSync path) w)"

definition fetch :: "string \<Rightarrow> world \<Rightarrow> (error + response) \<times> world" where
  "fetch u w =
     (case network w u of
        None \<Rightarrow> (Inl FetchError, logEvent (Fetch u) w)
      | Some r \<Rightarrow> (Inr r, logEvent (Fetch u) w))"

text \<open>
  Modelled from the spec: \<^verbatim>\<open>writeAsset\<close> of \<^verbatim>\<open>assets.ts\<close>, which is not among the
  sources. The spec has it write the bytes to the path, creating parent directories as
  needed, as a reliable primitive.
\<close>

definition writeAsset :: "string \<Rightarrow> buffer \<Rightarrow> world \<Rightarrow> world" where
  "writeAsset path buf w = logEvent (WriteAsset path buf) (w\<lparr>files := (files w)(path \<mapsto> buf)\<rparr>)"

text \<open>\<^verbatim>\<open>fs.rm(p)\<close> without options: it rejects when nothing is at the path.\<close>

definition rm :: "string \<Rightarrow> world \<Rightarrow> (error + unit) \<times> world" where
  "rm p w =
     (if files w p \<noteq> None
      then (Inr (), logEvent (Rm p) (w\<lparr>files := (files w)(p := None)\<rparr>))
      else (Inl (RmError p), logEvent (Rm p) w))"

text \<open>\<^verbatim>\<open>fs.mkdir(path, {recursive: true})\<close>: directories are not part of the model
  (\<open>existsSync\<close> sees files only), the call is recorded.\<close>

definition mkdir :: "string \<Rightarrow> world \<Rightarrow> world" where
  "mkdir path w = logEvent (Mkdir path) w"

section \<open>The module\<close>

text \<open>\<^verbatim>\<open>prefix.replace(/\/$/, "")\<close>.\<close>

definition removeTrailingSlash :: "string \<Rightarrow> string" where
  "removeTrailingSlash s =
     (case rev s of
        [] \<Rightarrow> []
      | c # cs \<Rightarrow> if c = CHR ''/'' then rev cs else s)"

definition initImageHandling :: "string \<Rightarrow> string \<Rightarrow> string list \<Rightarrow> world \<Rightarrow> (error + unit) \<times> world" where
  "initImageHandling prefix outputPath incomingLocales w =
     (let w1 = w\<lparr>imagePrefix := removeTrailingSlash prefix,
                 imageOutputPath := outputPath,
                 locales := Some incomingLocales\<rparr>
      in if outputPath \<noteq> [] then (Inr (), mkdir outputPath w1) else (Inr (), w1))"

definition imageWasSeen :: "string \<Rightarrow> world \<Rightarrow> world" where
  "imageWasSeen path w =
     w\<lparr>existingImagesNotSeenYetInPull := filter (\<lambda>p. p \<noteq> path) (existingImagesNotSeenYetInPull w)\<rparr>"

text \<open>The loop of \<open>cleanupOldImages\<close> over the array: the first rejected \<^verbatim>\<open>fs.rm\<close> is
  thrown out of the loop.\<close>

fun rmEach :: "string list \<Rightarrow> world \<Rightarrow> (error + unit) \<times> world" where
  "rmEach [] w = (Inr (), w)"
| "rmEach (p # ps) w =
     (case rm p w of
        (Inl err, w') \<Rightarrow> (Inl err, w')
      | (Inr _, w') \<Rightarrow> rmEach ps w')"

definition cleanupOldImages :: "world \<Rightarrow> (error + unit) \<times> world" where
  "cleanupOldImages w = rmEach (existingImagesNotSeenYetInPull w) w"

subsection \<open>Parsing the block\<close>

text \<open>The body of \<^verbatim>\<open>lines.forEach\<close>, on the image set under construction.\<close>

definition parseLine :: "ImageSet \<Rightarrow> string \<Rightarrow> ImageSet" where
  "parseLine imageSet l =
     (case execLocaleLine l of
        Some (code, u) \<Rightarrow>
          imageSet\<lparr>localizedUrls :=
            localizedUrls imageSet @ [\<lparr>iso632Code = toLowerCase code, url = u\<rparr>]\<rparr>
      | None \<Rightarrow> imageSet\<lparr>caption := caption imageSet @ l @ '' ''\<rparr>)"

definition parseImageBlock :: "image \<Rightarrow> world \<Rightarrow> error + ImageSet" where
  "parseImageBlock img w =
     (case locales w of
        None \<Rightarrow> Inl ConfigurationError
      | Some ls \<Rightarrow>
          (let imageSet =
                 \<lparr>primaryUrl = (case source img of File u \<Rightarrow> u | External u \<Rightarrow> u),
                  caption = [],
                  localizedUrls = map (\<lambda>l. \<lparr>iso632Code = l, url = []\<rparr>) ls,
                  pageInfo = None, primaryBuffer = None, fileType = None,
                  primaryFileOutputPath = None, outputFileName = None,
                  filePathToUseInMarkdown = None\<rparr>;
               mergedCaption = concat (image_caption img);
               lines = split CHR 0x0A mergedCaption;
               parsed = foldl parseLine imageSet lines
           in Inr (parsed\<lparr>caption := trim (caption parsed)\<rparr>)))"

subsection \<open>Fetching and saving\<close>

definition readPrimaryImage :: "env \<Rightarrow> ImageSet \<Rightarrow> world \<Rightarrow> (error + ImageSet) \<times> world" where
  "readPrimaryImage e imageSet w =
     (case fetch (primaryUrl imageSet) w of
        (Inl err, w') \<Rightarrow> (Inl err, w')
      | (Inr r, w') \<Rightarrow>
          (Inr (imageSet\<lparr>primaryBuffer := Some (body r),
                          fileType := fileTypeFromBuffer e (body r)\<rparr>), w'))"

text \<open>The condition \<^verbatim>\<open>!context.options.forceRefreshImages && fs.existsSync(path)\<close>:
  with the flag set, the file system is not asked.\<close>

definition alreadyThere :: "options \<Rightarrow> string \<Rightarrow> world \<Rightarrow> bool \<times> world" where
  "alreadyThere opts path w = (if forceRefreshImages opts then (False, w) else existsSync path w)"

text \<open>\<open>newPath\<close> of \<open>saveLocalizedImages\<close>; an undefined file name is spliced in as the
  text \<^verbatim>\<open>undefined\<close>, an undefined page info throws.\<close>

definition localizedPath :: "ImageSet \<Rightarrow> localizedUrl \<Rightarrow> error + string" where
  "localizedPath imageSet localizedImage =
     (case pageInfo imageSet of
        None \<Rightarrow> Inl TypeError
      | Some p \<Rightarrow>
          (let directory = ''./i18n/'' @ iso632Code localizedImage
                 @ ''/docusaurus-plugin-content-docs/current/''
                 @ relativeFilePathToFolderContainingPage p
           in Inr (replaceAllSlashSlash
                (directory @ ''/''
                 @ (case outputFileName imageSet of None \<Rightarrow> ''undefined'' | Some n \<Rightarrow> n)))))"

text \<open>The body of the loop of \<open>saveLocalizedImages\<close>.\<close>

definition saveLocalizedImage ::
  "env \<Rightarrow> IDocuNotionContext \<Rightarrow> localizedUrl \<Rightarrow> ImageSet \<Rightarrow> world \<Rightarrow> (error + ImageSet) \<times> world" where
  "saveLocalizedImage e context localizedImage imageSet w =
     (case localizedPath imageSet localizedImage of
        Inl err \<Rightarrow> (Inl err, w)
      | Inr newPath \<Rightarrow>
          (case alreadyThere (context_options context) newPath (imageWasSeen newPath w) of
             (skip, w1) \<Rightarrow>
               if skip then (Inr imageSet, w1)
               else if url localizedImage \<noteq> []
               then (case fetch (url localizedImage) w1 of
                       (Inl err, w2) \<Rightarrow> (Inl err, w2)
                     | (Inr r, w2) \<Rightarrow> (Inr imageSet, writeAsset newPath (body r) w2))
               else (case (case primaryBuffer imageSet of
                             None \<Rightarrow> readPrimaryImage e imageSet w1
                           | Some _ \<Rightarrow> (Inr imageSet, w1)) of
                       (Inl err, w2) \<Rightarrow> (Inl err, w2)
                     | (Inr loaded, w2) \<Rightarrow>
                         (case primaryBuffer loaded of
                            None \<Rightarrow> (Inl TypeError, w2)
                          | Some buf \<Rightarrow> (Inr loaded, writeAsset newPath buf w2)))))"

fun saveLocalizedLoop ::
  "env \<Rightarrow> IDocuNotionContext \<Rightarrow> localizedUrl list \<Rightarrow> ImageSet \<Rightarrow> world \<Rightarrow> (error + ImageSet) \<times> world" where
  "saveLocalizedLoop e context [] imageSet w = (Inr imageSet, w)"
| "saveLocalizedLoop e context (l # ls) imageSet w =
     (case saveLocalizedImage e context l imageSet w of
        (Inl err, w') \<Rightarrow> (Inl err, w')
      | (Inr imageSet', w') \<Rightarrow> saveLocalizedLoop e context ls imageSet' w')"

definition saveLocalizedImages ::
  "env \<Rightarrow> ImageSet \<Rightarrow> IDocuNotionContext \<Rightarrow> world \<Rightarrow> (error + ImageSet) \<times> world" where
  "saveLocalizedImages e imageSet context w =
     saveLocalizedLoop e context (localizedUrls imageSet) imageSet w"

text \<open>\<open>saveImage\<close>; an undefined path or buffer makes \<open>writeAsset\<close> throw.\<close>

definition saveImage ::
  "env \<Rightarrow> ImageSet \<Rightarrow> IDocuNotionContext \<Rightarrow> world \<Rightarrow> (error + ImageSet) \<times> world" where
  "saveImage e imageSet context w =
     (case primaryFileOutputPath imageSet of
        None \<Rightarrow> (Inl TypeError, w)
      | Some primaryPath \<Rightarrow>
          (case alreadyThere (context_options context) primaryPath (imageWasSeen primaryPath w) of
             (skip, w1) \<Rightarrow>
               if skip then saveLocalizedImages e imageSet context w1
               else (case primaryBuffer imageSet of
                       None \<Rightarrow> (Inl TypeError, w1)
                     | Some buf \<Rightarrow>
                         saveLocalizedImages e imageSet context (writeAsset primaryPath buf w1))))"

subsection \<open>Processing one block\<close>

text \<open>The branch "download and save as usual" of \<open>processImageBlock\<close>.\<close>

definition downloadAndSave ::
  "env \<Rightarrow> ImageSet \<Rightarrow> IDocuNotionContext \<Rightarrow> world \<Rightarrow> (error + ImageSet) \<times> world" where
  "downloadAndSave e imageSet context w =
     (case readPrimaryImage e imageSet w of
        (Inl err, w') \<Rightarrow> (Inl err, w')
      | (Inr loaded, w') \<Rightarrow> saveImage e loaded context w')"

text \<open>The end of \<open>processImageBlock\<close>: the block points to the local copy and carries
  the caption without the locale lines. It is the value of the model what the source
  changes in place.\<close>

definition rewriteBlock :: "block \<Rightarrow> ImageSet \<Rightarrow> block" where
  "rewriteBlock blk imageSet =
     (let p = (case filePathToUseInMarkdown imageSet of None \<Rightarrow> ''undefined'' | Some x \<Rightarrow> x)
      in blk\<lparr>block_image :=
           \<lparr>source = (case source (block_image blk) of
                         File _ \<Rightarrow> File p
                       | External _ \<Rightarrow> External p),
            image_caption = (if caption imageSet \<noteq> [] then [caption imageSet] else [])\<rparr>\<rparr>)"

definition processImageBlock ::
  "env \<Rightarrow> block \<Rightarrow> IDocuNotionContext \<Rightarrow> world \<Rightarrow> (error + block) \<times> world" where
  "processImageBlock e blk context w =
     (case parseImageBlock (block_image blk) w of
        Inl err \<Rightarrow> (Inl err, w)
      | Inr parsed \<Rightarrow>
          (let imageSet = parsed\<lparr>pageInfo := Some (context_pageInfo context)\<rparr>;
               opts = context_options context;
               saved =
                 (if imageFileNameFormat opts \<noteq> FormatContentHash
                  then (case makeImagePersistencePlanWithoutBuffer e opts imageSet (block_id blk)
                               (imageOutputPath w) (imagePrefix w) of
                          Inl err \<Rightarrow> (Inl err, w)
                        | Inr planned \<Rightarrow>
                            (case primaryFileOutputPath planned of
                               None \<Rightarrow> downloadAndSave e planned context w
                             | Some p \<Rightarrow>
                                 if \<not> forceRefreshImages opts \<and> p \<noteq> []
                                 then (case existsSync p w of
                                         (found, w1) \<Rightarrow>
                                           if found
                                           then saveLocalizedImages e planned context
                                                  (imageWasSeen p w1)
                                           else downloadAndSave e planned context w1)
                                 else downloadAndSave e planned context w))
                  else (case readPrimaryImage e imageSet w of
                          (Inl err, w1) \<Rightarrow> (Inl err, w1)
                        | (Inr loaded, w1) \<Rightarrow>
                            (case makeImagePersistencePlan e opts loaded (block_id blk)
                                    (imageOutputPath w1) (imagePrefix w1) of
                               None \<Rightarrow> (Inl PlanError, w1)
                             | Some (name, path, md) \<Rightarrow>
                                 saveImage e
                                   (loaded\<lparr>outputFileName := Some name,
                                           primaryFileOutputPath := Some path,
                                           filePathToUseInMarkdown := Some md\<rparr>)
                                   context w1)))
           in case saved of
                (Inl err, w') \<Rightarrow> (Inl err, w')
              | (Inr imageSet', w') \<Rightarrow> (Inr (rewriteBlock blk imageSet'), w')))"

text \<open>The transformer returns the markdown of the image; the rewritten block is returned
  with it.\<close>

definition markdownToMDImageTransformer ::
  "env \<Rightarrow> block \<Rightarrow> IDocuNotionContext \<Rightarrow> world \<Rightarrow> (error + string \<times> block) \<times> world" where
  "markdownToMDImageTransformer e blk context w =
     (case processImageBlock e blk context w of
        (Inl err, w') \<Rightarrow> (Inl err, w')
      | (Inr blk', w') \<Rightarrow>
          (let altText = concat (image_caption (block_image blk'));
               href = (case source (block_image blk') of File u \<Rightarrow> u | External u \<Rightarrow> u)
           in (Inr (''!['' @ altText @ '']('' @ href @ '')'', blk'), w')))"

subsection \<open>A run\<close>

text \<open>
  Modelled from the spec: the caller of the module, which is not among the sources. A
  run passes every image block of the source, with the context of its page, to the
  transformer, one after the other, and an error of a block propagates; after all
  blocks it calls \<open>cleanupOldImages\<close>.
\<close>

fun processBlocks ::
  "env \<Rightarrow> (block \<times> IDocuNotionContext) list \<Rightarrow> world \<Rightarrow> (error + (string \<times> block) list) \<times> world" where
  "processBlocks e [] w = (Inr [], w)"
| "processBlocks e ((blk, context) # rest) w =
     (case markdownToMDImageTransformer e blk context w of
        (Inl err, w') \<Rightarrow> (Inl err, w')
      | (Inr out, w') \<Rightarrow>
          (case processBlocks e rest w' of
             (Inl err, w'') \<Rightarrow> (Inl err, w'')
           | (Inr outs, w'') \<Rightarrow> (Inr (out # outs), w'')))"

definition run ::
  "env \<Rightarrow> (block \<times> IDocuNotionContext) list \<Rightarrow> world \<Rightarrow> (error + (string \<times> block) list) \<times> world" where
  "run e blocks w =
     (case processBlocks e blocks w of
        (Inl err, w') \<Rightarrow> (Inl err, w')
      | (Inr outs, w') \<Rightarrow>
          (case cleanupOldImages w' of
             (Inl err, w'') \<Rightarrow> (Inl err, w'')
           | (Inr _, w'') \<Rightarrow> (Inr outs, w'')))"

section \<open>Concrete data\<close>

definition exampleCaption :: string where
  "exampleCaption =
     ''Intro text.\<newline>fr https://example.com/a.png\<newline>ES https://example.com/b.png\<newline>Outro.''"

definition exampleImage :: image where
  "exampleImage =
     \<lparr>source = File ''https://files.example/img.png?sig=1'',
      image_caption = [''Intro text.\<newline>fr https://example.com/a.png'',
                       ''\<newline>ES https://example.com/b.png\<newline>Outro.'']\<rparr>"

definition exampleNetwork :: "string \<Rightarrow> response option" where
  "exampleNetwork u =
     (if u = ''https://files.example/img.png?sig=1'' then Some \<lparr>status = 200, body = ''PNG''\<rparr>
      else if u = ''https://example.com/a.png'' then Some \<lparr>status = 404, body = ''Not Found''\<rparr>
      else if u = ''https://example.com/b.png'' then Some \<lparr>status = 200, body = ''PNG-es''\<rparr>
      else None)"

definition freshWorld :: world where
  "freshWorld =
     \<lparr>files = Map.empty, network = exampleNetwork, existingImagesNotSeenYetInPull = [],
      imageOutputPath = [], imagePrefix = [], locales = None, trace = []\<rparr>"

text \<open>An environment for the checks. Its digest function is SHA-256 on the two strings
  hashed below and a fixed digest elsewhere; its \<open>decodeURI\<close> leaves a name without
  escapes as it is.\<close>

definition exampleEnv :: env where
  "exampleEnv =
     \<lparr>sha256hex = (\<lambda>s.
        if s = ''11111111-2222-3333-4444-555555555555''
        then ''666ff6ccaa5b3c07feaa3a95d3a4bd2c46ac9e9abdb09ca9133528d3dc1e8952''
        else if s = ''55555566-7777-8888-9999-aaaaaaaaaaaa''
        then ''8abaa9ee72b03c5e4598c0270fbadfd781e0deba6e292bce33d09f09fce49ac1''
        else ''9f86d081884c7d659a2feaa0c55ad015a3bf4f1b2b0b822cd15d6c15b0f00a08''),
      decodeURI = Some,
      fileTypeFromBuffer = (\<lambda>b. None),
      makeImagePersistencePlan =
        (\<lambda>opts imageSet imageBlockId root prefix.
           Some (''content.png'', posix_join root ''content.png'', prefix @ ''/content.png''))\<rparr>"

definition examplePageInfo :: IDocuNotionContextPageInfo where
  "examplePageInfo =
     \<lparr>directoryContainingMarkdown = ''docs'', relativeFilePathToFolderContainingPage = ''sub'',
      slug = ''/page''\<rparr>"

definition exampleContext :: IDocuNotionContext where
  "exampleContext =
     \<lparr>context_options = \<lparr>imageFileNameFormat = FormatDefault, forceRefreshImages = False\<rparr>,
      context_pageInfo = examplePageInfo\<rparr>"

definition exampleBlock :: block where
  "exampleBlock = \<lparr>block_id = ''b1'', block_image = exampleImage\<rparr>"

definition configuredWorld :: world where
  "configuredWorld = snd (initImageHandling ''/img/'' ''/out'' [''de''] freshWorld)"

text \<open>A block whose primary URL has no file extension.\<close>

definition noExtensionImageSet :: ImageSet where
  "noExtensionImageSet =
     \<lparr>primaryUrl = ''https://example.com/image'', caption = [], localizedUrls = [],
      pageInfo = Some examplePageInfo, primaryBuffer = None, fileType = None,
      primaryFileOutputPath = None, outputFileName = None, filePathToUseInMarkdown = None\<rparr>"

text \<open>A block whose primary URL is answered with the status 404.\<close>

definition missingBlock :: block where
  "missingBlock =
     \<lparr>block_id = ''b2'',
      block_image = \<lparr>source = External ''https://example.com/a.png'', image_caption = []\<rparr>\<rparr>"

text \<open>A world with three stale paths to sweep, of which the second is no longer on disk.\<close>

definition staleWorld :: world where
  "staleWorld =
     \<lparr>files = [''old-b.png'' \<mapsto> ''B'', ''old-c.png'' \<mapsto> ''C''], network = exampleNetwork,
      existingImagesNotSeenYetInPull = [''old-b.png'', ''old-a.png'', ''old-c.png''],
      imageOutputPath = ''/out'', imagePrefix = ''/img'', locales = Some [], trace = []\<rparr>"

text \<open>The image set of such a block after planning, with a French override at the same URL.\<close>

definition missingImageSet :: ImageSet where
  "missingImageSet =
     \<lparr>primaryUrl = ''https://example.com/a.png'', caption = [],
      localizedUrls = [\<lparr>iso632Code = ''fr'', url = ''https://example.com/a.png''\<rparr>],
      pageInfo = Some examplePageInfo, primaryBuffer = None, fileType = None,
      primaryFileOutputPath = Some ''/out/page.b2.png'', outputFileName = Some ''page.b2.png'',
      filePathToUseInMarkdown = Some ''/img/page.b2.png''\<rparr>"




text \<open>
  The choice of the string to hash in the words of the spec, to compare with
  \<open>findLastUuid\<close>: a UUID-shaped substring starts at \<open>i\<close> when the pattern matches
  there, and the last UUID-shaped substring is the one that starts last.
\<close>

definition uuidAt :: "string \<Rightarrow> nat \<Rightarrow> bool" where
  "uuidAt s i = (uuidPrefix (drop i s) \<noteq> None)"




section \<open>Notions for the properties of a run\<close>

text \<open>
  What every function of the module leaves as it is or changes in one direction only: the
  network and the three configuration variables stay, no path is added to
  \<open>existingImagesNotSeenYetInPull\<close>, no file is removed, no recorded call is forgotten.
\<close>

definition evolves :: "world \<Rightarrow> world \<Rightarrow> bool" where
  "evolves w w' =
     (network w' = network w \<and> imageOutputPath w' = imageOutputPath w
      \<and> imagePrefix w' = imagePrefix w \<and> locales w' = locales w
      \<and> set (existingImagesNotSeenYetInPull w') \<subseteq> set (existingImagesNotSeenYetInPull w)
      \<and> dom (files w) \<subseteq> dom (files w')
      \<and> set (trace w) \<subseteq> set (trace w'))"

text \<open>Two image sets with the same plan: they differ at most in the bytes read and their
  sniffed type.\<close>

definition samePlan :: "ImageSet \<Rightarrow> ImageSet \<Rightarrow> bool" where
  "samePlan a b =
     (primaryUrl b = primaryUrl a \<and> caption b = caption a \<and> localizedUrls b = localizedUrls a
      \<and> pageInfo b = pageInfo a \<and> primaryFileOutputPath b = primaryFileOutputPath a
      \<and> outputFileName b = outputFileName a
      \<and> filePathToUseInMarkdown b = filePathToUseInMarkdown a)"

text \<open>The image set of a block as \<open>processImageBlock\<close> plans it in the default and the
  legacy format, before it touches the file system or the network.\<close>

definition plannedImageSet :: "env \<Rightarrow> block \<Rightarrow> IDocuNotionContext \<Rightarrow> world \<Rightarrow> error + ImageSet" where
  "plannedImageSet e blk context w =
     (case parseImageBlock (block_image blk) w of
        Inl err \<Rightarrow> Inl err
      | Inr parsed \<Rightarrow>
          makeImagePersistencePlanWithoutBuffer e (context_options context)
            (parsed\<lparr>pageInfo := Some (context_pageInfo context)\<rparr>) (block_id blk)
            (imageOutputPath w) (imagePrefix w))"

text \<open>The output paths of a planned image set: the primary path, then the path of every
  localized image.\<close>

definition localizedPaths :: "ImageSet \<Rightarrow> string list" where
  "localizedPaths imageSet =
     concat (map (\<lambda>l. case localizedPath imageSet l of Inl _ \<Rightarrow> [] | Inr p \<Rightarrow> [p])
                 (localizedUrls imageSet))"

definition outputPaths :: "ImageSet \<Rightarrow> string list" where
  "outputPaths imageSet =
     (case primaryFileOutputPath imageSet of None \<Rightarrow> [] | Some p \<Rightarrow> [p])
     @ localizedPaths imageSet"

definition targetPaths :: "env \<Rightarrow> block \<Rightarrow> IDocuNotionContext \<Rightarrow> world \<Rightarrow> string list" where
  "targetPaths e blk context w =
     (case plannedImageSet e blk context w of
        Inl _ \<Rightarrow> []
      | Inr planned \<Rightarrow> outputPaths planned)"

text \<open>The states the module can be in: it is loaded, and then its exported functions are
  called in any order with any arguments, while the files and the network may change
  between the calls.\<close>

inductive reachable :: "env \<Rightarrow> world \<Rightarrow> bool" for e :: env where
  loaded: "moduleLoaded w \<Longrightarrow> reachable e w"
| init: "reachable e w \<Longrightarrow> reachable e (snd (initImageHandling prefix outputPath ls w))"
| transform: "reachable e w \<Longrightarrow> reachable e (snd (markdownToMDImageTransformer e blk context w))"
| cleanup: "reachable e w \<Longrightarrow> reachable e (snd (cleanupOldImages w))"
| outside: "reachable e w \<Longrightarrow> reachable e (w\<lparr>files := fs, network := net\<rparr>)"

text \<open>Between two worlds, every path newly asked for with \<^verbatim>\<open>existsSync\<close> is no longer
  among the images not seen yet.\<close>

definition checksMarked :: "world \<Rightarrow> world \<Rightarrow> bool" where
  "checksMarked w w' =
     (\<forall>p. ExistsSync p \<in> set (trace w') \<longrightarrow>
          ExistsSync p \<in> set (trace w) \<or> p \<notin> set (existingImagesNotSeenYetInPull w'))"

text \<open>A step that keeps both.\<close>

definition goodStep :: "world \<Rightarrow> world \<Rightarrow> bool" where
  "goodStep w w' = (evolves w w' \<and> checksMarked w w')"

text \<open>Every path of the list is on disk and is not among the images not seen yet.\<close>

definition allSaved :: "string list \<Rightarrow> world \<Rightarrow> bool" where
  "allSaved ps w =
     (\<forall>p\<in>set ps. files w p \<noteq> None \<and> p \<notin> set (existingImagesNotSeenYetInPull w))"

text \<open>The world after the example block has been processed once.\<close>

definition processedWorld :: world where
  "processedWorld =
     snd (markdownToMDImageTransformer exampleEnv exampleBlock exampleContext configuredWorld)"


text \<open>What the transformer returns for a block once it is rewritten.\<close>

definition transformed :: "block \<Rightarrow> string \<times> block" where
  "transformed blk' =
     (''!['' @ concat (image_caption (block_image blk')) @ '']('' 
      @ (case source (block_image blk') of File u \<Rightarrow> u | External u \<Rightarrow> u) @ '')'', blk')"


text \<open>A first run over the example block from the configured world.\<close>

definition firstRun :: "(error + (string \<times> block) list) \<times> world" where
  "firstRun = run exampleEnv [(exampleBlock, exampleContext)] configuredWorld"

text \<open>The example context with \<^verbatim>\<open>forceRefreshImages\<close> set, and a first run with it.\<close>

definition forceContext :: IDocuNotionContext where
  "forceContext =
     \<lparr>context_options = \<lparr>imageFileNameFormat = FormatDefault, forceRefreshImages = True\<rparr>,
      context_pageInfo = examplePageInfo\<rparr>"

definition forcedFirstRun :: "(error + (string \<times> block) list) \<times> world" where
  "forcedFirstRun = run exampleEnv [(missingBlock, forceContext)] configuredWorld"




section \<open>Verified properties\<close>

subsection \<open>Caption parsing\<close>

lemma toLowerCase_ES: "toLowerCase ''ES'' = ''es''"
  by code_simp

lemma toLowerCase_fr: "toLowerCase ''fr'' = ''fr''"
  by code_simp

lemma exampleCaption_lines:
  "split CHR 0x0A exampleCaption =
     [''Intro text.'', ''fr https://example.com/a.png'', ''ES https://example.com/b.png'',
      ''Outro.'']"
  by (simp add: exampleCaption_def)

lemma exampleCaption_matches:
  "execLocaleLine ''Intro text.'' = None"
  "execLocaleLine ''Outro.'' = None"
  "execLocaleLine ''fr https://example.com/a.png'' = Some (''fr'', ''https://example.com/a.png'')"
  "execLocaleLine ''ES https://example.com/b.png'' = Some (''ES'', ''https://example.com/b.png'')"
  by (simp_all add: matchHere_def isSpace_def isLineTerminator_def)

lemma exampleCaption_trim: "trim ''Intro text. Outro. '' = ''Intro text. Outro.''"
  by (simp add: trim_def isSpace_def)

text \<open>
  C10. After \<open>initImageHandling\<close> with a list of locales, a block whose caption texts
  together read "Intro text.", "fr https://example.com/a.png", "ES https://example.com/b.png"
  and "Outro." on four lines parses to the caption "Intro text. Outro." and to the localized
  URLs of the configured locales (without URL) followed by fr with a.png and es, in lower
  case, with b.png.
\<close>

theorem parseImageBlock_locale_example:
  assumes "concat (image_caption img) = exampleCaption"
  shows "\<exists>imageSet.
           parseImageBlock img (snd (initImageHandling prefix outputPath ls w)) = Inr imageSet
         \<and> caption imageSet = ''Intro text. Outro.''
         \<and> localizedUrls imageSet =
             map (\<lambda>l. \<lparr>iso632Code = l, url = []\<rparr>) ls
             @ [\<lparr>iso632Code = ''fr'', url = ''https://example.com/a.png''\<rparr>,
                \<lparr>iso632Code = ''es'', url = ''https://example.com/b.png''\<rparr>]"
  using assms
  by (simp add: parseImageBlock_def initImageHandling_def mkdir_def logEvent_def Let_def
        exampleCaption_lines exampleCaption_matches exampleCaption_trim parseLine_def
        toLowerCase_ES toLowerCase_fr
      del: execLocaleLine.simps)

theorem parseImageBlock_locale_example_witness:
  "concat (image_caption exampleImage) = exampleCaption
   \<and> (\<exists>imageSet.
         parseImageBlock exampleImage (snd (initImageHandling ''/img/'' ''/out'' [''de''] freshWorld))
           = Inr imageSet
       \<and> caption imageSet = ''Intro text. Outro.''
       \<and> localizedUrls imageSet =
           [\<lparr>iso632Code = ''de'', url = []\<rparr>,
            \<lparr>iso632Code = ''fr'', url = ''https://example.com/a.png''\<rparr>,
            \<lparr>iso632Code = ''es'', url = ''https://example.com/b.png''\<rparr>])"
proof -
  have h: "concat (image_caption exampleImage) = exampleCaption"
    by (simp add: exampleImage_def exampleCaption_def)
  show ?thesis
    using h parseImageBlock_locale_example [OF h, of "''/img/''" "''/out''" "[''de'']" freshWorld]
    by simp
qed

subsection \<open>File names\<close>

text \<open>
  C7. In the default format the output file name is the page slug, the block id and the
  extension, and a primary URL without a file extension gets the extension png. The
  source falls back to png only when the text after the last dot of the URL before the
  query is empty: for the URL https://example.com/image, the block b1 and the slug /page
  the name is page.b1.com/image.
\<close>

theorem default_name_url_without_extension:
  "map_sum id outputFileName
     (makeImagePersistencePlanWithoutBuffer exampleEnv
        \<lparr>imageFileNameFormat = FormatDefault, forceRefreshImages = False\<rparr>
        noExtensionImageSet ''b1'' ''/out'' ''/img'')
   = Inr (Some ''page.b1.com/image'')"
  by (simp add: makeImagePersistencePlanWithoutBuffer_def noExtensionImageSet_def exampleEnv_def
        examplePageInfo_def beforeQuery_def extensionFromUrl_def first_def pop_def Let_def)

subsection \<open>The sweep\<close>

lemma compl_minus_single: "- A - {p} = - insert p A"
  by auto

lemma rmEach_present:
  "distinct ps \<Longrightarrow> \<forall>p\<in>set ps. files w p \<noteq> None \<Longrightarrow>
   rmEach (ps @ qs) w
     = rmEach qs (w\<lparr>files := files w |` (- set ps), trace := trace w @ map Rm ps\<rparr>)"
proof (induction ps arbitrary: w)
  case Nil
  then show ?case by simp
next
  case (Cons p ps)
  let ?w1 = "logEvent (Rm p) (w\<lparr>files := (files w)(p := None)\<rparr>)"
  have present: "files w p \<noteq> None" using Cons.prems by simp
  have step: "rmEach ((p # ps) @ qs) w = rmEach (ps @ qs) ?w1"
    using present by (simp add: rm_def)
  have "distinct ps" and "\<forall>q\<in>set ps. files ?w1 q \<noteq> None"
    using Cons.prems by (auto simp: logEvent_def)
  then have "rmEach (ps @ qs) ?w1
      = rmEach qs (?w1\<lparr>files := files ?w1 |` (- set ps), trace := trace ?w1 @ map Rm ps\<rparr>)"
    by (rule Cons.IH)
  moreover have "?w1\<lparr>files := files ?w1 |` (- set ps), trace := trace ?w1 @ map Rm ps\<rparr>
      = w\<lparr>files := files w |` (- set (p # ps)), trace := trace w @ map Rm (p # ps)\<rparr>"
    using Cons.prems by (simp add: logEvent_def compl_minus_single)
  ultimately show ?case using step by simp
qed

text \<open>
  C5, as the claim states it: a deletion that fails during the sweep is logged and the sweep
  goes on over the remaining paths. In the source the rejected \<^verbatim>\<open>fs.rm\<close> is not caught:
  with the stale paths old-b.png, old-a.png and old-c.png, of which old-a.png is not on
  disk, \<open>cleanupOldImages\<close> throws at old-a.png, and old-c.png is neither visited nor
  deleted.
\<close>

theorem cleanupOldImages_sweep_aborts:
  "fst (cleanupOldImages staleWorld) = Inl (RmError ''old-a.png'')
   \<and> files (snd (cleanupOldImages staleWorld)) ''old-c.png'' = Some ''C''
   \<and> trace (snd (cleanupOldImages staleWorld)) = [Rm ''old-b.png'', Rm ''old-a.png'']"
  by (simp add: cleanupOldImages_def staleWorld_def rm_def logEvent_def)

text \<open>
  C5, amended: a deletion that fails during the sweep is not caught. When the paths before
  the stale path \<open>p\<close> are distinct and on disk and \<open>p\<close> is not, \<open>cleanupOldImages\<close>
  deletes the paths before \<open>p\<close>, tries \<open>p\<close>, and throws the error of \<open>p\<close>; the paths
  after \<open>p\<close> are not visited.
\<close>

theorem cleanupOldImages_stops_at_failure:
  assumes "existingImagesNotSeenYetInPull w = ps @ p # qs"
    and "distinct ps" and "\<forall>q\<in>set ps. files w q \<noteq> None" and "files w p = None"
  shows "cleanupOldImages w
     = (Inl (RmError p),
        w\<lparr>files := files w |` (- set ps), trace := trace w @ map Rm ps @ [Rm p]\<rparr>)"
proof -
  have "rmEach (ps @ p # qs) w
      = rmEach (p # qs) (w\<lparr>files := files w |` (- set ps), trace := trace w @ map Rm ps\<rparr>)"
    using assms(2,3) by (rule rmEach_present)
  also have "\<dots> = (Inl (RmError p),
        w\<lparr>files := files w |` (- set ps), trace := trace w @ map Rm ps @ [Rm p]\<rparr>)"
    using assms(4) by (simp add: rm_def logEvent_def restrict_map_def)
  finally show ?thesis using assms(1) by (simp add: cleanupOldImages_def)
qed

theorem cleanupOldImages_stops_at_failure_witness:
  "existingImagesNotSeenYetInPull staleWorld = [''old-b.png''] @ ''old-a.png'' # [''old-c.png'']
   \<and> distinct [''old-b.png'']
   \<and> files staleWorld ''old-b.png'' = Some ''B''
   \<and> files staleWorld ''old-a.png'' = None
   \<and> cleanupOldImages staleWorld
       = (Inl (RmError ''old-a.png''),
          staleWorld\<lparr>files := files staleWorld |` (- set [''old-b.png'']),
                     trace := trace staleWorld @ map Rm [''old-b.png''] @ [Rm ''old-a.png'']\<rparr>)"
proof -
  have h1: "existingImagesNotSeenYetInPull staleWorld
      = [''old-b.png''] @ ''old-a.png'' # [''old-c.png'']"
    by (simp add: staleWorld_def)
  have h2: "distinct [''old-b.png'']" by simp
  have h3: "\<forall>q\<in>set [''old-b.png'']. files staleWorld q \<noteq> None"
    by (simp add: staleWorld_def)
  have h4: "files staleWorld ''old-a.png'' = None"
    by (simp add: staleWorld_def)
  have h5: "files staleWorld ''old-b.png'' = Some ''B''"
    by (simp add: staleWorld_def)
  show ?thesis
    using h1 h2 h4 h5 cleanupOldImages_stops_at_failure [OF h1 h2 h3 h4] by (intro conjI)
qed

subsection \<open>Fetching\<close>

lemma configuredWorld_eq:
  "configuredWorld =
     \<lparr>files = Map.empty, network = exampleNetwork, existingImagesNotSeenYetInPull = [],
      imageOutputPath = ''/out'', imagePrefix = ''/img'', locales = Some [''de''],
      trace = [Mkdir ''/out'']\<rparr>"
  by (simp add: configuredWorld_def initImageHandling_def freshWorld_def removeTrailingSlash_def
        mkdir_def logEvent_def)

text \<open>
  C6, as the claim states it: the body of a response without success is never stored or used
  as the bytes of the asset. The source does not look at the status of the response: the
  primary URL of the block b2 is answered with 404 and the body "Not Found", the block is
  processed without error, and that body is the content of the primary output file.
\<close>

theorem non_success_body_is_stored:
  "network configuredWorld ''https://example.com/a.png''
     = Some \<lparr>status = 404, body = ''Not Found''\<rparr>
   \<and> fst (processImageBlock exampleEnv missingBlock exampleContext configuredWorld)
       = Inr \<lparr>block_id = ''b2'',
              block_image = \<lparr>source = External ''/img/page.b2.png'', image_caption = []\<rparr>\<rparr>
   \<and> files (snd (processImageBlock exampleEnv missingBlock exampleContext configuredWorld))
        ''/out/page.b2.png'' = Some ''Not Found''"
  by code_simp

text \<open>
  C6, amended: fetching an image, primary or localized override, fails exactly when the fetch
  itself rejects; a response that arrives, whatever its status, has its body buffered and used
  as the bytes of the asset. The bytes of the primary image are sniffed for their type, those
  of a localized override are written as they are.
\<close>

theorem fetch_fails_only_when_rejected:
  "((\<exists>err. fst (readPrimaryImage e imageSet w) = Inl err) \<longleftrightarrow> network w (primaryUrl imageSet) = None)
   \<and> (\<forall>r. network w (primaryUrl imageSet) = Some r \<longrightarrow>
          readPrimaryImage e imageSet w
            = (Inr (imageSet\<lparr>primaryBuffer := Some (body r),
                              fileType := fileTypeFromBuffer e (body r)\<rparr>),
               logEvent (Fetch (primaryUrl imageSet)) w))
   \<and> (url l \<noteq> [] \<and> localizedPath imageSet l = Inr newPath
        \<and> (forceRefreshImages (context_options context) \<or> files w newPath = None) \<longrightarrow>
        ((\<exists>err. fst (saveLocalizedImage e context l imageSet w) = Inl err)
            \<longleftrightarrow> network w (url l) = None)
        \<and> (\<forall>r. network w (url l) = Some r \<longrightarrow>
              fst (saveLocalizedImage e context l imageSet w) = Inr imageSet
            \<and> files (snd (saveLocalizedImage e context l imageSet w))
                = (files w)(newPath \<mapsto> body r)))"
  by (auto simp: readPrimaryImage_def fetch_def saveLocalizedImage_def alreadyThere_def
        existsSync_def imageWasSeen_def writeAsset_def logEvent_def
      split: option.splits)

theorem fetch_fails_only_when_rejected_witness:
  "network configuredWorld (primaryUrl missingImageSet) = Some \<lparr>status = 404, body = ''Not Found''\<rparr>
   \<and> readPrimaryImage exampleEnv missingImageSet configuredWorld
       = (Inr (missingImageSet\<lparr>primaryBuffer := Some ''Not Found'', fileType := None\<rparr>),
          logEvent (Fetch ''https://example.com/a.png'') configuredWorld)
   \<and> localizedPath missingImageSet \<lparr>iso632Code = ''fr'', url = ''https://example.com/a.png''\<rparr>
       = Inr ''./i18n/fr/docusaurus-plugin-content-docs/current/sub/page.b2.png''
   \<and> files configuredWorld ''./i18n/fr/docusaurus-plugin-content-docs/current/sub/page.b2.png'' = None
   \<and> files (snd (saveLocalizedImage exampleEnv exampleContext
                  \<lparr>iso632Code = ''fr'', url = ''https://example.com/a.png''\<rparr>
                  missingImageSet configuredWorld))
        ''./i18n/fr/docusaurus-plugin-content-docs/current/sub/page.b2.png'' = Some ''Not Found''"
proof -
  let ?l = "\<lparr>iso632Code = ''fr'', url = ''https://example.com/a.png''\<rparr>"
  let ?p = "''./i18n/fr/docusaurus-plugin-content-docs/current/sub/page.b2.png''"
  have n: "network configuredWorld (primaryUrl missingImageSet)
      = Some \<lparr>status = 404, body = ''Not Found''\<rparr>"
    by (simp add: configuredWorld_eq missingImageSet_def exampleNetwork_def)
  have n': "network configuredWorld (url ?l) = Some \<lparr>status = 404, body = ''Not Found''\<rparr>"
    by (simp add: configuredWorld_eq exampleNetwork_def)
  have p: "localizedPath missingImageSet ?l = Inr ?p"
    by (simp add: localizedPath_def missingImageSet_def examplePageInfo_def)
  have f: "files configuredWorld ?p = None"
    by (simp add: configuredWorld_eq)
  have u: "url ?l \<noteq> []" by simp
  have s: "fileTypeFromBuffer exampleEnv ''Not Found'' = None"
    by (simp add: exampleEnv_def)
  note t = fetch_fails_only_when_rejected
    [of exampleEnv missingImageSet configuredWorld ?l ?p exampleContext]
  from t n s have a: "readPrimaryImage exampleEnv missingImageSet configuredWorld
       = (Inr (missingImageSet\<lparr>primaryBuffer := Some ''Not Found'', fileType := None\<rparr>),
          logEvent (Fetch (primaryUrl missingImageSet)) configuredWorld)"
    by simp
  from t u p f n' have b: "files (snd (saveLocalizedImage exampleEnv exampleContext ?l
        missingImageSet configuredWorld)) = (files configuredWorld)(?p \<mapsto> ''Not Found'')"
    by simp
  show ?thesis using n a p f b by (simp add: missingImageSet_def)
qed

subsection \<open>The rule for a locale line\<close>




















subsection \<open>The legacy file name\<close>








lemma uuidAt_drop: "uuidAt (drop n s) j \<longleftrightarrow> uuidAt s (j + n)"
  by (simp add: uuidAt_def add.commute)

















subsection \<open>What the functions of the module change\<close>

lemma evolves_refl: "evolves w w"
  by (simp add: evolves_def)

lemma evolves_trans: "evolves a b \<Longrightarrow> evolves b c \<Longrightarrow> evolves a c"
  by (simp add: evolves_def) (meson order_trans)

lemma evolves_logEvent: "evolves w (logEvent ev w)"
  by (auto simp: evolves_def logEvent_def)

lemma evolves_imageWasSeen: "evolves w (imageWasSeen p w)"
  by (auto simp: evolves_def imageWasSeen_def)

lemma evolves_writeAsset: "evolves w (writeAsset p buf w)"
  by (auto simp: evolves_def writeAsset_def logEvent_def)

lemma evolves_existsSync: "evolves w (snd (existsSync p w))"
  by (simp add: existsSync_def evolves_logEvent)

lemma evolves_alreadyThere: "evolves w (snd (alreadyThere opts p w))"
  by (simp add: alreadyThere_def evolves_existsSync evolves_refl)

lemma evolves_fetch: "evolves w (snd (fetch u w))"
  by (simp add: fetch_def evolves_logEvent split: option.splits)

lemma evolves_readPrimaryImage: "evolves w (snd (readPrimaryImage e imageSet w))"
  using evolves_fetch [of w "primaryUrl imageSet"]
  by (auto simp: readPrimaryImage_def split: prod.splits sum.splits)

lemma evolves_saveLocalizedImage: "evolves w (snd (saveLocalizedImage e context l imageSet w))"
proof (cases "localizedPath imageSet l")
  case (Inl err)
  then show ?thesis by (simp add: saveLocalizedImage_def evolves_refl)
next
  case (Inr newPath)
  let ?w0 = "imageWasSeen newPath w"
  obtain skip w1 where g: "alreadyThere (context_options context) newPath ?w0 = (skip, w1)"
    by (cases "alreadyThere (context_options context) newPath ?w0")
  have "evolves ?w0 (snd (alreadyThere (context_options context) newPath ?w0))"
    by (rule evolves_alreadyThere)
  then have w1: "evolves w w1"
    using g evolves_imageWasSeen [of w newPath] by (auto intro: evolves_trans)
  show ?thesis
  proof (cases skip)
    case True
    then show ?thesis using Inr g w1 by (simp add: saveLocalizedImage_def)
  next
    case False
    note noskip = this
    show ?thesis
    proof (cases "url l \<noteq> []")
      case True
      obtain r w2 where f: "fetch (url l) w1 = (r, w2)" by (cases "fetch (url l) w1")
      have w2: "evolves w w2"
        using evolves_fetch [of w1 "url l"] f w1 by (auto intro: evolves_trans)
      then have "evolves w (writeAsset newPath buf w2)" for buf
        using evolves_writeAsset [of w2 newPath buf] by (auto intro: evolves_trans)
      then show ?thesis
        using Inr g noskip True w2 f
        by (cases r) (simp_all add: saveLocalizedImage_def)
    next
      case False
      obtain r w2 where f: "(case primaryBuffer imageSet of
                             None \<Rightarrow> readPrimaryImage e imageSet w1
                           | Some _ \<Rightarrow> (Inr imageSet, w1)) = (r, w2)"
        by (cases "case primaryBuffer imageSet of
                             None \<Rightarrow> readPrimaryImage e imageSet w1
                           | Some _ \<Rightarrow> (Inr imageSet, w1)")
      have "evolves w1 w2"
        using evolves_readPrimaryImage [of w1 e imageSet] f
        by (cases "primaryBuffer imageSet") (auto simp: evolves_refl)
      then have w2: "evolves w w2" using w1 by (auto intro: evolves_trans)
      then have "evolves w (writeAsset newPath buf w2)" for buf
        using evolves_writeAsset [of w2 newPath buf] by (auto intro: evolves_trans)
      then show ?thesis
        using Inr g noskip False w2 f
        by (cases r) (simp_all add: saveLocalizedImage_def split: option.splits)
    qed
  qed
qed

lemma evolves_saveLocalizedLoop: "evolves w (snd (saveLocalizedLoop e context ls imageSet w))"
proof (induction ls arbitrary: imageSet w)
  case Nil
  then show ?case by (simp add: evolves_refl)
next
  case (Cons l ls)
  have body: "evolves w (snd (saveLocalizedImage e context l imageSet w))"
    by (rule evolves_saveLocalizedImage)
  show ?case
  proof (cases "saveLocalizedImage e context l imageSet w")
    case (Pair r w')
    then show ?thesis
      using body Cons.IH [of w'] by (cases r) (auto intro: evolves_trans)
  qed
qed


lemmas io_defs = readPrimaryImage_def fetch_def alreadyThere_def existsSync_def imageWasSeen_def
  writeAsset_def logEvent_def

lemma samePlan_refl: "samePlan a a"
  by (simp add: samePlan_def)

lemma samePlan_trans: "samePlan a b \<Longrightarrow> samePlan b c \<Longrightarrow> samePlan a c"
  by (simp add: samePlan_def)

lemma samePlan_readPrimaryImage:
  "readPrimaryImage e imageSet w = (Inr imageSet', w') \<Longrightarrow> samePlan imageSet imageSet'"
  unfolding samePlan_def by (auto simp: io_defs split: option.splits)

lemma samePlan_saveLocalizedImage:
  "saveLocalizedImage e context l imageSet w = (Inr imageSet', w') \<Longrightarrow> samePlan imageSet imageSet'"
  using samePlan_refl [of imageSet] 
  by (auto simp: saveLocalizedImage_def fetch_def alreadyThere_def existsSync_def 
       split: option.splits sum.splits prod.splits if_splits dest: samePlan_readPrimaryImage)

lemma checksMarked_saveLocalizedImage:
  "checksMarked w (snd (saveLocalizedImage e context l imageSet w))"
  unfolding checksMarked_def
  by (auto simp: saveLocalizedImage_def io_defs split: option.splits sum.splits prod.splits if_splits)

lemma saved_saveLocalizedImage:
  "saveLocalizedImage e context l imageSet w = (Inr imageSet', w') \<Longrightarrow>
   \<exists>p. localizedPath imageSet l = Inr p \<and> files w' p \<noteq> None
      \<and> p \<notin> set (existingImagesNotSeenYetInPull w')"
  by (auto simp: saveLocalizedImage_def io_defs split: option.splits sum.splits prod.splits if_splits)


lemma localizedPath_samePlan: "samePlan a b \<Longrightarrow> localizedPath b l = localizedPath a l"
  by (simp add: localizedPath_def samePlan_def cong: option.case_cong)

lemma localizedPaths_samePlan: "samePlan a b \<Longrightarrow> localizedPaths b = localizedPaths a"
  by (simp add: localizedPaths_def localizedPath_samePlan) (simp add: samePlan_def)

lemma checksMarked_refl: "checksMarked w w"
  by (simp add: checksMarked_def)

lemma checksMarked_trans:
  "checksMarked a b \<Longrightarrow> checksMarked b c \<Longrightarrow> evolves b c \<Longrightarrow> checksMarked a c"
  unfolding checksMarked_def evolves_def by blast

lemma checksMarked_readPrimaryImage: "checksMarked w (snd (readPrimaryImage e imageSet w))"
  unfolding checksMarked_def by (auto simp: io_defs split: option.splits)

lemma saveLocalizedLoop_Cons_Inr:
  assumes "saveLocalizedLoop e context (l # ls) imageSet w = (Inr imageSet', w')"
  obtains imageSet1 w1 where "saveLocalizedImage e context l imageSet w = (Inr imageSet1, w1)"
    and "saveLocalizedLoop e context ls imageSet1 w1 = (Inr imageSet', w')"
proof (cases "saveLocalizedImage e context l imageSet w")
  case (Pair r w1)
  with assms that show ?thesis by (cases r) auto
qed

lemma samePlan_saveLocalizedLoop:
  "saveLocalizedLoop e context ls imageSet w = (Inr imageSet', w') \<Longrightarrow> samePlan imageSet imageSet'"
proof (induction ls arbitrary: imageSet w)
  case Nil
  then show ?case by (simp add: samePlan_refl)
next
  case (Cons l ls)
  from Cons.prems obtain imageSet1 w1
    where "saveLocalizedImage e context l imageSet w = (Inr imageSet1, w1)"
      and "saveLocalizedLoop e context ls imageSet1 w1 = (Inr imageSet', w')"
    by (rule saveLocalizedLoop_Cons_Inr)
  then show ?case
    using Cons.IH samePlan_saveLocalizedImage samePlan_trans by blast
qed

lemma checksMarked_saveLocalizedLoop:
  "checksMarked w (snd (saveLocalizedLoop e context ls imageSet w))"
proof (induction ls arbitrary: imageSet w)
  case Nil
  then show ?case by (simp add: checksMarked_refl)
next
  case (Cons l ls)
  obtain r w1 where b: "saveLocalizedImage e context l imageSet w = (r, w1)"
    by (cases "saveLocalizedImage e context l imageSet w")
  have m: "checksMarked w w1"
    using checksMarked_saveLocalizedImage [of w e "context" l imageSet] b by simp
  show ?case
  proof (cases r)
    case (Inl err)
    then show ?thesis using b m by simp
  next
    case (Inr imageSet1)
    have "checksMarked w1 (snd (saveLocalizedLoop e context ls imageSet1 w1))"
      by (rule Cons.IH)
    moreover have "evolves w1 (snd (saveLocalizedLoop e context ls imageSet1 w1))"
      by (rule evolves_saveLocalizedLoop)
    ultimately show ?thesis using Inr b m by (auto intro: checksMarked_trans)
  qed
qed

lemma saved_saveLocalizedLoop:
  "saveLocalizedLoop e context ls imageSet w = (Inr imageSet', w') \<Longrightarrow>
   \<forall>l\<in>set ls. \<exists>p. localizedPath imageSet l = Inr p \<and> files w' p \<noteq> None
      \<and> p \<notin> set (existingImagesNotSeenYetInPull w')"
proof (induction ls arbitrary: imageSet w)
  case Nil
  then show ?case by simp
next
  case (Cons l ls)
  from Cons.prems obtain imageSet1 w1
    where b: "saveLocalizedImage e context l imageSet w = (Inr imageSet1, w1)"
      and r: "saveLocalizedLoop e context ls imageSet1 w1 = (Inr imageSet', w')"
    by (rule saveLocalizedLoop_Cons_Inr)
  from saved_saveLocalizedImage [OF b] obtain p where p: "localizedPath imageSet l = Inr p"
      "files w1 p \<noteq> None" "p \<notin> set (existingImagesNotSeenYetInPull w1)"
    by blast
  have "evolves w1 w'"
    using evolves_saveLocalizedLoop [of w1 e "context" ls imageSet1] r by simp
  then have "files w' p \<noteq> None" "p \<notin> set (existingImagesNotSeenYetInPull w')"
    using p(2,3) unfolding evolves_def by (auto simp: domIff subset_iff)
  moreover have "\<forall>l\<in>set ls. \<exists>p. localizedPath imageSet l = Inr p \<and> files w' p \<noteq> None
      \<and> p \<notin> set (existingImagesNotSeenYetInPull w')"
    using Cons.IH [OF r] localizedPath_samePlan [OF samePlan_saveLocalizedImage [OF b]] by simp
  ultimately show ?case using p(1) by simp
qed

lemma saveImage_stage:
  assumes "primaryFileOutputPath imageSet = Some p"
  obtains (skip) "\<not> forceRefreshImages (context_options ctx)" "files w p \<noteq> None"
      "saveImage e imageSet ctx w
         = saveLocalizedImages e imageSet ctx (logEvent (ExistsSync p) (imageWasSeen p w))"
  | (nobuf) w1 where "forceRefreshImages (context_options ctx) \<or> files w p = None"
      "primaryBuffer imageSet = None" "saveImage e imageSet ctx w = (Inl TypeError, w1)"
      "evolves w w1" "checksMarked w w1"
  | (written) buf w1 where "forceRefreshImages (context_options ctx) \<or> files w p = None"
      "primaryBuffer imageSet = Some buf"
      "saveImage e imageSet ctx w = saveLocalizedImages e imageSet ctx (writeAsset p buf w1)"
      "w1 = (if forceRefreshImages (context_options ctx) then imageWasSeen p w
             else logEvent (ExistsSync p) (imageWasSeen p w))"
proof (cases "\<not> forceRefreshImages (context_options ctx) \<and> files w p \<noteq> None")
  case True
  then have "saveImage e imageSet ctx w
         = saveLocalizedImages e imageSet ctx (logEvent (ExistsSync p) (imageWasSeen p w))"
    using assms by (auto simp: saveImage_def alreadyThere_def existsSync_def imageWasSeen_def logEvent_def)
  with True show ?thesis using skip by blast
next
  case False
  let ?w1 = "if forceRefreshImages (context_options ctx) then imageWasSeen p w
             else logEvent (ExistsSync p) (imageWasSeen p w)"
  have g: "alreadyThere (context_options ctx) p (imageWasSeen p w) = (False, ?w1)"
    using False by (auto simp: alreadyThere_def existsSync_def imageWasSeen_def logEvent_def)
  show ?thesis
  proof (cases "primaryBuffer imageSet")
    case None
    have "saveImage e imageSet ctx w = (Inl TypeError, ?w1)"
      using assms g None by (simp add: saveImage_def)
    moreover have "evolves w ?w1"
      by (auto simp: evolves_def imageWasSeen_def logEvent_def)
    moreover have "checksMarked w ?w1"
      by (auto simp: checksMarked_def imageWasSeen_def logEvent_def)
    ultimately show ?thesis using nobuf False None by blast
  next
    case (Some buf)
    have "saveImage e imageSet ctx w = saveLocalizedImages e imageSet ctx (writeAsset p buf ?w1)"
      using assms g Some by (simp add: saveImage_def)
    then show ?thesis using written False Some by blast
  qed
qed

lemma goodStep_refl: "goodStep w w"
  by (simp add: goodStep_def evolves_refl checksMarked_refl)

lemma goodStep_trans: "goodStep a b \<Longrightarrow> goodStep b c \<Longrightarrow> goodStep a c"
  unfolding goodStep_def by (blast intro: evolves_trans checksMarked_trans)

lemma allSaved_evolves: "allSaved ps w \<Longrightarrow> evolves w w' \<Longrightarrow> allSaved ps w'"
  unfolding allSaved_def evolves_def by (auto simp: domIff subset_iff)

lemma allSaved_append: "allSaved (ps @ qs) w \<longleftrightarrow> allSaved ps w \<and> allSaved qs w"
  unfolding allSaved_def by auto

lemma goodStep_readPrimaryImage: "goodStep w (snd (readPrimaryImage e imageSet w))"
  by (simp add: goodStep_def evolves_readPrimaryImage checksMarked_readPrimaryImage)

lemma goodStep_saveLocalizedLoop: "goodStep w (snd (saveLocalizedLoop e ctx ls imageSet w))"
  by (simp add: goodStep_def evolves_saveLocalizedLoop checksMarked_saveLocalizedLoop)

lemma goodStep_saveLocalizedImages: "goodStep w (snd (saveLocalizedImages e imageSet ctx w))"
  by (simp add: saveLocalizedImages_def goodStep_saveLocalizedLoop)

lemma saveLocalizedImages_Inr:
  assumes "saveLocalizedImages e imageSet ctx w = (Inr imageSet', w')"
  shows "samePlan imageSet imageSet' \<and> allSaved (localizedPaths imageSet) w'"
proof -
  from assms have l: "saveLocalizedLoop e ctx (localizedUrls imageSet) imageSet w = (Inr imageSet', w')"
    by (simp add: saveLocalizedImages_def)
  from saved_saveLocalizedLoop [OF l]
  have "allSaved (localizedPaths imageSet) w'"
    unfolding allSaved_def localizedPaths_def by (auto split: sum.splits)
  then show ?thesis using samePlan_saveLocalizedLoop [OF l] by simp
qed

lemma goodStep_mark_check: "goodStep w (logEvent (ExistsSync p) (imageWasSeen p w))"
  by (auto simp: goodStep_def evolves_def checksMarked_def imageWasSeen_def logEvent_def)

lemma goodStep_mark: "goodStep w (imageWasSeen p w)"
  by (auto simp: goodStep_def evolves_def checksMarked_def imageWasSeen_def)

lemma goodStep_writeAsset: "goodStep w (writeAsset p buf w)"
  by (auto simp: goodStep_def evolves_def checksMarked_def writeAsset_def logEvent_def)

lemma outputPaths_samePlan: "samePlan a b \<Longrightarrow> outputPaths b = outputPaths a"
  by (simp add: outputPaths_def localizedPaths_samePlan) (simp add: samePlan_def)

lemma saveImage_effect:
  assumes "saveImage e imageSet ctx w = (r, w')"
  shows "goodStep w w'
    \<and> (\<forall>imageSet'. r = Inr imageSet' \<longrightarrow>
          samePlan imageSet imageSet' \<and> allSaved (outputPaths imageSet) w')"
proof (cases "primaryFileOutputPath imageSet")
  case None
  with assms show ?thesis by (auto simp: saveImage_def goodStep_refl)
next
  case (Some p)
  then show ?thesis
  proof (cases rule: saveImage_stage [where e = e and ctx = ctx and w = w])
    case skip
    let ?w1 = "logEvent (ExistsSync p) (imageWasSeen p w)"
    have loc: "saveLocalizedImages e imageSet ctx ?w1 = (r, w')" using skip(3) assms by simp
    have g1: "goodStep w ?w1" by (rule goodStep_mark_check)
    have g2: "goodStep ?w1 w'"
      using goodStep_saveLocalizedImages [of ?w1 e imageSet ctx] loc by simp
    have p1: "allSaved [p] ?w1"
      using skip(2) by (simp add: allSaved_def imageWasSeen_def logEvent_def)
    have "samePlan imageSet imageSet' \<and> allSaved (outputPaths imageSet) w'"
      if "r = Inr imageSet'" for imageSet'
    proof -
      from saveLocalizedImages_Inr [OF loc [unfolded that]]
      have "samePlan imageSet imageSet'" "allSaved (localizedPaths imageSet) w'" by simp_all
      moreover have "allSaved [p] w'" using p1 g2 by (auto simp: goodStep_def intro: allSaved_evolves)
      ultimately show ?thesis using Some by (simp add: outputPaths_def allSaved_def)
    qed
    then show ?thesis using g1 g2 by (blast intro: goodStep_trans)
  next
    case (nobuf w1)
    then show ?thesis using assms by (simp add: goodStep_def)
  next
    case (written buf w1)
    let ?w2 = "writeAsset p buf w1"
    have loc: "saveLocalizedImages e imageSet ctx ?w2 = (r, w')" using written(3) assms by simp
    have "goodStep w w1"
      unfolding written(4) by (simp add: goodStep_mark goodStep_mark_check)
    then have g1: "goodStep w ?w2" using goodStep_writeAsset goodStep_trans by blast
    have g2: "goodStep ?w2 w'"
      using goodStep_saveLocalizedImages [of ?w2 e imageSet ctx] loc by simp
    have p1: "allSaved [p] ?w2"
      unfolding written(4) by (simp add: allSaved_def imageWasSeen_def logEvent_def writeAsset_def)
    have "samePlan imageSet imageSet' \<and> allSaved (outputPaths imageSet) w'"
      if "r = Inr imageSet'" for imageSet'
    proof -
      from saveLocalizedImages_Inr [OF loc [unfolded that]]
      have "samePlan imageSet imageSet'" "allSaved (localizedPaths imageSet) w'" by simp_all
      moreover have "allSaved [p] w'" using p1 g2 by (auto simp: goodStep_def intro: allSaved_evolves)
      ultimately show ?thesis using Some by (simp add: outputPaths_def allSaved_def)
    qed
    then show ?thesis using g1 g2 by (blast intro: goodStep_trans)
  qed
qed

lemma downloadAndSave_effect:
  assumes "downloadAndSave e imageSet ctx w = (r, w')"
  shows "goodStep w w'
    \<and> (\<forall>imageSet'. r = Inr imageSet' \<longrightarrow>
          samePlan imageSet imageSet' \<and> allSaved (outputPaths imageSet) w')"
proof -
  obtain r1 w1 where rd: "readPrimaryImage e imageSet w = (r1, w1)"
    by (cases "readPrimaryImage e imageSet w")
  have g1: "goodStep w w1" using goodStep_readPrimaryImage [of w e imageSet] rd by simp
  show ?thesis
  proof (cases r1)
    case (Inl err)
    then show ?thesis using assms rd g1 by (auto simp: downloadAndSave_def)
  next
    case (Inr loaded)
    then have sv: "saveImage e loaded ctx w1 = (r, w')"
      using assms rd by (simp add: downloadAndSave_def)
    have sp: "samePlan imageSet loaded"
      using rd Inr by (auto dest: samePlan_readPrimaryImage)
    from saveImage_effect [OF sv] sp g1 show ?thesis
      by (auto intro: goodStep_trans samePlan_trans simp: outputPaths_samePlan)
  qed
qed

lemma posix_normalize_nonempty: "posix_normalize p \<noteq> []"
  by (auto simp: posix_normalize_def Let_def split: list.splits)

lemma posix_join_nonempty: "posix_join a b \<noteq> []"
  by (simp add: posix_join_def posix_normalize_nonempty)

lemma plannedImageSet_facts:
  assumes "plannedImageSet e blk ctx w = Inr planned"
  shows "\<exists>p. primaryFileOutputPath planned = Some p \<and> p \<noteq> []"
    and "pageInfo planned = Some (context_pageInfo ctx)"
  using assms
  by (auto simp: plannedImageSet_def makeImagePersistencePlanWithoutBuffer_def Let_def
        posix_join_nonempty
      split: sum.splits option.splits if_splits)

lemma plannedImageSet_evolves:
  assumes "evolves w w'"
  shows "plannedImageSet e blk ctx w' = plannedImageSet e blk ctx w"
proof -
  have "parseImageBlock (block_image blk) w' = parseImageBlock (block_image blk) w"
    using assms by (simp add: parseImageBlock_def evolves_def)
  moreover have "imageOutputPath w' = imageOutputPath w" "imagePrefix w' = imagePrefix w"
    using assms by (simp_all add: evolves_def)
  ultimately show ?thesis by (simp add: plannedImageSet_def cong: sum.case_cong)
qed

lemma rewriteBlock_samePlan: "samePlan a b \<Longrightarrow> rewriteBlock blk b = rewriteBlock blk a"
  by (simp add: rewriteBlock_def samePlan_def)

lemma processImageBlock_not_planned:
  assumes "imageFileNameFormat (context_options ctx) \<noteq> FormatContentHash"
    and "plannedImageSet e blk ctx w = Inl err"
  shows "processImageBlock e blk ctx w = (Inl err, w)"
  using assms
  by (auto simp: processImageBlock_def plannedImageSet_def Let_def split: sum.splits)

lemma processImageBlock_planned:
  assumes "imageFileNameFormat (context_options ctx) \<noteq> FormatContentHash"
    and "plannedImageSet e blk ctx w = Inr planned"
    and "primaryFileOutputPath planned = Some p"
  shows "processImageBlock e blk ctx w =
     (case (if \<not> forceRefreshImages (context_options ctx) \<and> p \<noteq> []
            then (case existsSync p w of
                    (found, w1) \<Rightarrow>
                      if found then saveLocalizedImages e planned ctx (imageWasSeen p w1)
                      else downloadAndSave e planned ctx w1)
            else downloadAndSave e planned ctx w) of
        (Inl err, w') \<Rightarrow> (Inl err, w')
      | (Inr imageSet', w') \<Rightarrow> (Inr (rewriteBlock blk imageSet'), w'))"
  using assms
  by (auto simp: processImageBlock_def plannedImageSet_def Let_def split: sum.splits)


lemma checksMarked_after_check:
  assumes "goodStep (logEvent (ExistsSync p) w) w'"
    and "p \<notin> set (existingImagesNotSeenYetInPull w')"
  shows "goodStep w w'"
  using assms unfolding goodStep_def evolves_def checksMarked_def logEvent_def by auto

lemma processImageBlock_early_effect:
  assumes fmt: "imageFileNameFormat (context_options ctx) \<noteq> FormatContentHash"
    and run: "processImageBlock e blk ctx w = (r, w')"
  shows "evolves w w'
    \<and> (\<forall>blk'. r = Inr blk' \<longrightarrow>
          checksMarked w w'
          \<and> (\<exists>planned. plannedImageSet e blk ctx w = Inr planned
                \<and> blk' = rewriteBlock blk planned \<and> allSaved (outputPaths planned) w'))"
proof (cases "plannedImageSet e blk ctx w")
  case (Inl err)
  then show ?thesis
    using processImageBlock_not_planned [OF fmt Inl] run by (auto simp: evolves_refl)
next
  case (Inr planned)
  from plannedImageSet_facts(1) [OF Inr] obtain p
    where p: "primaryFileOutputPath planned = Some p" "p \<noteq> []" by blast
  note unfold = processImageBlock_planned [OF fmt Inr p(1)]
  have pin: "p \<in> set (outputPaths planned)" using p(1) by (simp add: outputPaths_def)
  have wrap: ?thesis
    if g: "goodStep w w'" and ok: "\<And>imageSet'. s = Inr imageSet' \<Longrightarrow>
          samePlan planned imageSet' \<and> allSaved (outputPaths planned) w'"
      and res: "r = map_sum id (rewriteBlock blk) s" for s
  proof -
    have "checksMarked w w' \<and> (\<exists>planned. plannedImageSet e blk ctx w = Inr planned
                \<and> blk' = rewriteBlock blk planned \<and> allSaved (outputPaths planned) w')"
      if "r = Inr blk'" for blk'
    proof -
      from that res obtain imageSet' where s: "s = Inr imageSet'"
          and b: "blk' = rewriteBlock blk imageSet'"
        by (cases s) auto
      from ok [OF s] have "samePlan planned imageSet'" "allSaved (outputPaths planned) w'"
        by simp_all
      then show ?thesis using g b Inr by (auto simp: goodStep_def rewriteBlock_samePlan)
    qed
    then show ?thesis using g by (simp add: goodStep_def)
  qed
  show ?thesis
  proof (cases "\<not> forceRefreshImages (context_options ctx) \<and> files w p \<noteq> None")
    case True
    let ?w1 = "imageWasSeen p (logEvent (ExistsSync p) w)"
    obtain s where s: "saveLocalizedImages e planned ctx ?w1 = (s, w')"
        and res: "r = map_sum id (rewriteBlock blk) s"
      using unfold run True p(2)
      by (cases "saveLocalizedImages e planned ctx ?w1")
         (auto simp: existsSync_def split: sum.splits)
    have g1: "goodStep w ?w1"
      by (auto simp: goodStep_def evolves_def checksMarked_def imageWasSeen_def logEvent_def)
    have g2: "goodStep ?w1 w'" using goodStep_saveLocalizedImages [of ?w1 e planned ctx] s by simp
    have p1: "allSaved [p] ?w1"
      using True by (simp add: allSaved_def imageWasSeen_def logEvent_def)
    have "samePlan planned imageSet' \<and> allSaved (outputPaths planned) w'"
      if "s = Inr imageSet'" for imageSet'
    proof -
      from saveLocalizedImages_Inr [OF s [unfolded that]]
      have "samePlan planned imageSet'" "allSaved (localizedPaths planned) w'" by simp_all
      moreover have "allSaved [p] w'"
        using p1 g2 by (auto simp: goodStep_def intro: allSaved_evolves)
      ultimately show ?thesis using p(1) by (simp add: outputPaths_def allSaved_def)
    qed
    then show ?thesis using g1 g2 res by (intro wrap [of s]) (blast intro: goodStep_trans)+
  next
    case False
    let ?w1 = "if forceRefreshImages (context_options ctx) then w else logEvent (ExistsSync p) w"
    obtain s where s: "downloadAndSave e planned ctx ?w1 = (s, w')"
        and res: "r = map_sum id (rewriteBlock blk) s"
      using unfold run False p(2)
      by (cases "downloadAndSave e planned ctx ?w1")
         (auto simp: existsSync_def split: sum.splits if_splits)
    note eff = downloadAndSave_effect [OF s]
    have ev: "evolves w w'"
    proof -
      have "evolves w ?w1" by (simp add: evolves_refl evolves_logEvent)
      then show ?thesis using eff by (auto simp: goodStep_def intro: evolves_trans)
    qed
    show ?thesis
    proof (cases s)
      case (Inl err)
      then show ?thesis using res ev by simp
    next
      case (Inr imageSet')
      with eff have sp: "samePlan planned imageSet'" and sv: "allSaved (outputPaths planned) w'"
        by simp_all
      have "p \<notin> set (existingImagesNotSeenYetInPull w')"
        using sv pin by (simp add: allSaved_def)
      then have "goodStep w w'"
        using eff by (cases "forceRefreshImages (context_options ctx)")
          (auto intro: checksMarked_after_check)
      then show ?thesis using sp sv Inr res by (intro wrap [of s]) simp_all
    qed
  qed
qed


lemma processImageBlock_hash_effect:
  assumes fmt: "imageFileNameFormat (context_options ctx) = FormatContentHash"
    and run: "processImageBlock e blk ctx w = (r, w')"
  shows "goodStep w w'"
proof (cases "parseImageBlock (block_image blk) w")
  case (Inl err)
  then show ?thesis using run by (simp add: processImageBlock_def goodStep_refl)
next
  case (Inr parsed)
  let ?imageSet = "parsed\<lparr>pageInfo := Some (context_pageInfo ctx)\<rparr>"
  obtain r1 w1 where rd: "readPrimaryImage e ?imageSet w = (r1, w1)"
    by (cases "readPrimaryImage e ?imageSet w")
  have g1: "goodStep w w1" using goodStep_readPrimaryImage [of w e ?imageSet] rd by simp
  show ?thesis
  proof (cases r1)
    case (Inl err)
    then show ?thesis using run fmt Inr rd g1 by (simp add: processImageBlock_def Let_def)
  next
    case loaded: (Inr loaded)
    show ?thesis
    proof (cases "makeImagePersistencePlan e (context_options ctx) loaded (block_id blk)
                    (imageOutputPath w1) (imagePrefix w1)")
      case None
      then show ?thesis
        using run fmt Inr rd loaded g1 by (simp add: processImageBlock_def Let_def)
    next
      case (Some plan)
      obtain name path md where plan: "plan = (name, path, md)" by (cases plan)
      let ?planned = "loaded\<lparr>outputFileName := Some name, primaryFileOutputPath := Some path,
                            filePathToUseInMarkdown := Some md\<rparr>"
      obtain s w2 where sv: "saveImage e ?planned ctx w1 = (s, w2)"
        by (cases "saveImage e ?planned ctx w1")
      have "w' = w2"
        using run fmt Inr rd loaded Some plan sv
        by (cases s) (simp_all add: processImageBlock_def Let_def)
      then show ?thesis using saveImage_effect [OF sv] g1 by (auto intro: goodStep_trans)
    qed
  qed
qed

lemma processImageBlock_effect:
  assumes "processImageBlock e blk ctx w = (r, w')"
  shows "evolves w w' \<and> (\<forall>blk'. r = Inr blk' \<longrightarrow> checksMarked w w')"
proof (cases "imageFileNameFormat (context_options ctx) = FormatContentHash")
  case True
  from processImageBlock_hash_effect [OF True assms] show ?thesis by (simp add: goodStep_def)
next
  case False
  from processImageBlock_early_effect [OF False assms] show ?thesis by blast
qed

lemma markdownToMDImageTransformer_world:
  assumes "markdownToMDImageTransformer e blk ctx w = (r, w')"
  shows "\<exists>r0. processImageBlock e blk ctx w = (r0, w')
           \<and> (\<forall>out. r = Inr out \<longrightarrow> r0 = Inr (snd out))"
proof (cases "processImageBlock e blk ctx w")
  case (Pair r0 w0)
  with assms show ?thesis
    by (cases r0) (auto simp: markdownToMDImageTransformer_def Let_def)
qed

lemma markdownToMDImageTransformer_effect:
  assumes "markdownToMDImageTransformer e blk ctx w = (r, w')"
  shows "evolves w w' \<and> (\<forall>out. r = Inr out \<longrightarrow> checksMarked w w')"
proof -
  from markdownToMDImageTransformer_world [OF assms]
  obtain r0 where p: "processImageBlock e blk ctx w = (r0, w')"
    and ok: "\<forall>out. r = Inr out \<longrightarrow> r0 = Inr (snd out)"
    by blast
  from processImageBlock_effect [OF p] ok show ?thesis by auto
qed

lemma processBlocks_Cons_Inr:
  assumes "processBlocks e ((blk, ctx) # rest) w = (Inr outs, w')"
  obtains out outs' w1 where "markdownToMDImageTransformer e blk ctx w = (Inr out, w1)"
    and "processBlocks e rest w1 = (Inr outs', w')" and "outs = out # outs'"
proof (cases "markdownToMDImageTransformer e blk ctx w")
  case (Pair r w1)
  show ?thesis
  proof (cases r)
    case (Inl err)
    with assms Pair show ?thesis by simp
  next
    case (Inr out)
    obtain r2 w2 where rest: "processBlocks e rest w1 = (r2, w2)"
      by (cases "processBlocks e rest w1")
    with assms Pair Inr that show ?thesis by (cases r2) auto
  qed
qed

lemma evolves_processBlocks: "evolves w (snd (processBlocks e blocks w))"
proof (induction blocks arbitrary: w)
  case Nil
  then show ?case by (simp add: evolves_refl)
next
  case (Cons b blocks)
  obtain blk ctx where b: "b = (blk, ctx)" by (cases b)
  obtain r w1 where t: "markdownToMDImageTransformer e blk ctx w = (r, w1)"
    by (cases "markdownToMDImageTransformer e blk ctx w")
  have e1: "evolves w w1" using markdownToMDImageTransformer_effect [OF t] by simp
  show ?case
  proof (cases r)
    case (Inl err)
    then show ?thesis using b t e1 by simp
  next
    case (Inr out)
    have "evolves w1 (snd (processBlocks e blocks w1))" by (rule Cons.IH)
    then have "evolves w (snd (processBlocks e blocks w1))" using e1 by (rule evolves_trans [rotated])
    then show ?thesis using b t Inr by (auto split: prod.splits sum.splits)
  qed
qed


lemma rmEach_keeps:
  "existingImagesNotSeenYetInPull (snd (rmEach ps w)) = existingImagesNotSeenYetInPull w"
proof (induction ps arbitrary: w)
  case Nil
  then show ?case by simp
next
  case (Cons p ps)
  show ?case
    using Cons.IH [of "logEvent (Rm p) (w\<lparr>files := (files w)(p := None)\<rparr>)"]
    by (simp add: rm_def logEvent_def)
qed


lemma rmEach_Inr:
  "rmEach ps w = (Inr u, w') \<Longrightarrow>
   files w' = files w |` (- set ps) \<and> trace w' = trace w @ map Rm ps"
proof (induction ps arbitrary: w)
  case Nil
  then show ?case by simp
next
  case (Cons p ps)
  let ?w1 = "logEvent (Rm p) (w\<lparr>files := (files w)(p := None)\<rparr>)"
  from Cons.prems have present: "files w p \<noteq> None" and rest: "rmEach ps ?w1 = (Inr u, w')"
    by (auto simp: rm_def split: if_splits)
  have f: "files ?w1 |` (- set ps) = files w |` (- set (p # ps))"
    by (rule ext) (simp add: restrict_map_def logEvent_def)
  have t: "trace ?w1 @ map Rm ps = trace w @ map Rm (p # ps)"
    by (simp add: logEvent_def)
  from Cons.IH [OF rest]
  have "files w' = files ?w1 |` (- set ps)" "trace w' = trace ?w1 @ map Rm ps" by simp_all
  then show ?case by (simp only: f t)
qed

subsection \<open>The images not seen yet\<close>

text \<open>
  C4. No function of the module adds a path to \<open>existingImagesNotSeenYetInPull\<close>:
  \<open>initImageHandling\<close> and \<open>cleanupOldImages\<close> leave the list as it is,
  \<open>imageWasSeen\<close> and the transformer only remove paths. The list is empty when the module
  is loaded, so it is empty in every state the module can reach, and there
  \<open>cleanupOldImages\<close> returns without deleting a file or changing anything.
\<close>

theorem registry_always_empty:
  "existingImagesNotSeenYetInPull (snd (initImageHandling prefix outputPath ls w0))
     = existingImagesNotSeenYetInPull w0
   \<and> set (existingImagesNotSeenYetInPull (imageWasSeen p w0))
       \<subseteq> set (existingImagesNotSeenYetInPull w0)
   \<and> set (existingImagesNotSeenYetInPull (snd (markdownToMDImageTransformer e blk ctx w0)))
       \<subseteq> set (existingImagesNotSeenYetInPull w0)
   \<and> existingImagesNotSeenYetInPull (snd (cleanupOldImages w0))
       = existingImagesNotSeenYetInPull w0
   \<and> (reachable e w \<longrightarrow>
        existingImagesNotSeenYetInPull w = [] \<and> cleanupOldImages w = (Inr (), w))"
proof -
  have i: "existingImagesNotSeenYetInPull (snd (initImageHandling a b c v))
     = existingImagesNotSeenYetInPull v" for a b c v
    by (simp add: initImageHandling_def mkdir_def logEvent_def Let_def)
  have t: "set (existingImagesNotSeenYetInPull (snd (markdownToMDImageTransformer e b c v)))
       \<subseteq> set (existingImagesNotSeenYetInPull v)" for b c v
    using markdownToMDImageTransformer_effect [of e b c v]
    by (cases "markdownToMDImageTransformer e b c v") (simp add: evolves_def)
  have c: "existingImagesNotSeenYetInPull (snd (cleanupOldImages v))
       = existingImagesNotSeenYetInPull v" for v
    by (simp add: cleanupOldImages_def rmEach_keeps)
  have "existingImagesNotSeenYetInPull w = []" if "reachable e w"
    using that
  proof (induction rule: reachable.induct)
    case (loaded w)
    then show ?case by (simp add: moduleLoaded_def)
  next
    case (init w prefix outputPath ls)
    then show ?case by (simp add: i)
  next
    case (transform w blk "context")
    then show ?case using t [of blk "context" w] by simp
  next
    case (cleanup w)
    then show ?case by (simp add: c)
  next
    case (outside w fs net)
    then show ?case by simp
  qed
  then have "reachable e w \<longrightarrow>
        existingImagesNotSeenYetInPull w = [] \<and> cleanupOldImages w = (Inr (), w)"
    by (simp add: cleanupOldImages_def)
  then show ?thesis
    using i [of prefix outputPath ls w0] t [of blk ctx w0] c [of w0]
    by (simp add: imageWasSeen_def)
qed

theorem registry_always_empty_witness:
  "reachable exampleEnv processedWorld
   \<and> existingImagesNotSeenYetInPull processedWorld = []
   \<and> cleanupOldImages processedWorld = (Inr (), processedWorld)"
proof -
  have "moduleLoaded freshWorld"
    by (simp add: moduleLoaded_def freshWorld_def)
  then have "reachable exampleEnv freshWorld" by (rule reachable.loaded)
  then have "reachable exampleEnv configuredWorld"
    unfolding configuredWorld_def by (rule reachable.init)
  then have r: "reachable exampleEnv processedWorld"
    unfolding processedWorld_def by (rule reachable.transform)
  show ?thesis
    using r registry_always_empty [of _ _ _ freshWorld _ exampleEnv exampleBlock exampleContext processedWorld]
    by simp
qed

lemma markdownToMDImageTransformer_transformed:
  "markdownToMDImageTransformer e blk ctx w =
     (case processImageBlock e blk ctx w of
        (Inl err, w') \<Rightarrow> (Inl err, w')
      | (Inr blk', w') \<Rightarrow> (Inr (transformed blk'), w'))"
  by (simp add: markdownToMDImageTransformer_def transformed_def Let_def
      split: prod.splits sum.splits)

lemma targetPaths_evolves: "evolves w w' \<Longrightarrow> targetPaths e blk ctx w' = targetPaths e blk ctx w"
  by (simp add: targetPaths_def plannedImageSet_evolves)

lemma transformer_early_Inr:
  assumes fmt: "imageFileNameFormat (context_options ctx) \<noteq> FormatContentHash"
    and run: "markdownToMDImageTransformer e blk ctx w = (Inr out, w')"
  shows "\<exists>planned. plannedImageSet e blk ctx w = Inr planned
           \<and> out = transformed (rewriteBlock blk planned)
           \<and> allSaved (outputPaths planned) w'"
proof -
  obtain r0 w0 where p: "processImageBlock e blk ctx w = (r0, w0)"
    by (cases "processImageBlock e blk ctx w")
  with run obtain blk' where r0: "r0 = Inr blk'" and o: "out = transformed blk'" and w: "w0 = w'"
    by (cases r0) (auto simp: markdownToMDImageTransformer_transformed)
  from processImageBlock_early_effect [OF fmt p] r0 o w show ?thesis by auto
qed

lemma processBlocks_allSaved:
  "processBlocks e blocks w = (Inr outs, w') \<Longrightarrow>
   \<forall>(blk, ctx)\<in>set blocks.
      imageFileNameFormat (context_options ctx) \<noteq> FormatContentHash
      \<longrightarrow> allSaved (targetPaths e blk ctx w) w'"
proof (induction blocks arbitrary: w outs)
  case Nil
  then show ?case by simp
next
  case (Cons b blocks)
  obtain blk ctx where b: "b = (blk, ctx)" by (cases b)
  from Cons.prems [unfolded b] obtain out outs' w1
    where t: "markdownToMDImageTransformer e blk ctx w = (Inr out, w1)"
      and r: "processBlocks e blocks w1 = (Inr outs', w')"
    by (rule processBlocks_Cons_Inr)
  have e1: "evolves w w1" using markdownToMDImageTransformer_effect [OF t] by simp
  have e2: "evolves w1 w'" using evolves_processBlocks [of w1 e blocks] r by simp
  have hd: "allSaved (targetPaths e blk ctx w) w'"
    if fmt: "imageFileNameFormat (context_options ctx) \<noteq> FormatContentHash"
  proof -
    from transformer_early_Inr [OF fmt t] obtain planned
      where "plannedImageSet e blk ctx w = Inr planned" "allSaved (outputPaths planned) w1"
      by blast
    then have "allSaved (targetPaths e blk ctx w) w1" by (simp add: targetPaths_def)
    then show ?thesis using e2 by (rule allSaved_evolves)
  qed
  have tl: "\<forall>(blk, ctx)\<in>set blocks.
      imageFileNameFormat (context_options ctx) \<noteq> FormatContentHash
      \<longrightarrow> allSaved (targetPaths e blk ctx w) w'"
    using Cons.IH [OF r] targetPaths_evolves [OF e1] by auto
  show ?case using hd tl b by simp
qed



subsection \<open>A second run\<close>

lemma saveLocalizedImage_cached:
  assumes "\<not> forceRefreshImages (context_options ctx)"
    and "localizedPath imageSet l = Inr p" and "files w p \<noteq> None"
  shows "saveLocalizedImage e ctx l imageSet w
     = (Inr imageSet, logEvent (ExistsSync p) (imageWasSeen p w))"
  using assms
  by (auto simp: saveLocalizedImage_def alreadyThere_def existsSync_def imageWasSeen_def
        logEvent_def)

lemma cached_step:
  "files (logEvent (ExistsSync p) (imageWasSeen p w)) = files w"
  "trace (logEvent (ExistsSync p) (imageWasSeen p w)) = trace w @ [ExistsSync p]"
  "evolves w (logEvent (ExistsSync p) (imageWasSeen p w))"
  by (auto simp: evolves_def imageWasSeen_def logEvent_def)

lemma saveLocalizedLoop_cached:
  assumes "\<not> forceRefreshImages (context_options ctx)"
    and "\<forall>l\<in>set ls. \<exists>p. localizedPath imageSet l = Inr p \<and> files w p \<noteq> None"
  shows "\<exists>w'. saveLocalizedLoop e ctx ls imageSet w = (Inr imageSet, w')
     \<and> files w' = files w \<and> evolves w w'
     \<and> trace w' = trace w @ map ExistsSync
          (concat (map (\<lambda>l. case localizedPath imageSet l of Inl _ \<Rightarrow> [] | Inr p \<Rightarrow> [p]) ls))"
  using assms(2)
proof (induction ls arbitrary: w)
  case Nil
  then show ?case by (simp add: evolves_refl)
next
  case (Cons l ls)
  from Cons.prems obtain p where p: "localizedPath imageSet l = Inr p" "files w p \<noteq> None"
    by auto
  let ?w1 = "logEvent (ExistsSync p) (imageWasSeen p w)"
  have b: "saveLocalizedImage e ctx l imageSet w = (Inr imageSet, ?w1)"
    using assms(1) p by (rule saveLocalizedImage_cached)
  have "\<forall>l\<in>set ls. \<exists>p. localizedPath imageSet l = Inr p \<and> files ?w1 p \<noteq> None"
    using Cons.prems by (simp add: cached_step)
  from Cons.IH [OF this] obtain w' where
    w': "saveLocalizedLoop e ctx ls imageSet ?w1 = (Inr imageSet, w')" "files w' = files ?w1"
      "evolves ?w1 w'"
      "trace w' = trace ?w1 @ map ExistsSync
          (concat (map (\<lambda>l. case localizedPath imageSet l of Inl _ \<Rightarrow> [] | Inr p \<Rightarrow> [p]) ls))"
    by blast
  have "evolves w w'" using cached_step(3) w'(3) by (rule evolves_trans)
  then show ?case using b w' p(1) by (simp add: cached_step)
qed

lemma localizedPath_pageInfo:
  "pageInfo imageSet = Some pi \<Longrightarrow> \<exists>p. localizedPath imageSet l = Inr p"
  by (simp add: localizedPath_def Let_def)

lemma processImageBlock_cached:
  assumes fmt: "imageFileNameFormat (context_options ctx) \<noteq> FormatContentHash"
    and nf: "\<not> forceRefreshImages (context_options ctx)"
    and pl: "plannedImageSet e blk ctx w = Inr planned"
    and ex: "\<forall>p\<in>set (outputPaths planned). files w p \<noteq> None"
  shows "\<exists>w'. processImageBlock e blk ctx w = (Inr (rewriteBlock blk planned), w')
     \<and> files w' = files w \<and> evolves w w'
     \<and> trace w' = trace w @ map ExistsSync (outputPaths planned)"
proof -
  from plannedImageSet_facts [OF pl] obtain p
    where p: "primaryFileOutputPath planned = Some p" "p \<noteq> []"
      and pi: "pageInfo planned = Some (context_pageInfo ctx)" by blast
  have pe: "files w p \<noteq> None" using ex p(1) by (simp add: outputPaths_def)
  let ?w1 = "imageWasSeen p (logEvent (ExistsSync p) w)"
  have w1: "files ?w1 = files w" "trace ?w1 = trace w @ [ExistsSync p]" "evolves w ?w1"
    by (auto simp: evolves_def imageWasSeen_def logEvent_def)
  have "\<forall>l\<in>set (localizedUrls planned). \<exists>q. localizedPath planned l = Inr q \<and> files ?w1 q \<noteq> None"
  proof
    fix l assume l: "l \<in> set (localizedUrls planned)"
    from localizedPath_pageInfo [OF pi] obtain q where q: "localizedPath planned l = Inr q"
      by blast
    with l have "q \<in> set (outputPaths planned)"
      by (force simp: outputPaths_def localizedPaths_def)
    with ex q show "\<exists>q. localizedPath planned l = Inr q \<and> files ?w1 q \<noteq> None"
      by (simp add: w1)
  qed
  from saveLocalizedLoop_cached [OF nf this, of e] obtain w' where
    w': "saveLocalizedLoop e ctx (localizedUrls planned) planned ?w1 = (Inr planned, w')"
      "files w' = files ?w1" "evolves ?w1 w'"
      "trace w' = trace ?w1 @ map ExistsSync (localizedPaths planned)"
    unfolding localizedPaths_def by blast
  have "processImageBlock e blk ctx w = (Inr (rewriteBlock blk planned), w')"
    using processImageBlock_planned [OF fmt pl p(1)] nf p(2) pe w'(1)
    by (simp add: existsSync_def saveLocalizedImages_def)
  moreover have "evolves w w'" using w1(3) w'(3) by (rule evolves_trans)
  moreover have "trace w' = trace w @ map ExistsSync (outputPaths planned)"
    using w'(4) p(1) by (simp add: w1 outputPaths_def)
  ultimately show ?thesis using w'(2) w1(1) by simp
qed

lemma plannedImageSet_config:
  assumes "locales w2 = locales w" "imageOutputPath w2 = imageOutputPath w"
    "imagePrefix w2 = imagePrefix w"
  shows "plannedImageSet e blk ctx w2 = plannedImageSet e blk ctx w"
proof -
  have "parseImageBlock (block_image blk) w2 = parseImageBlock (block_image blk) w"
    using assms by (simp add: parseImageBlock_def)
  then show ?thesis using assms by (simp add: plannedImageSet_def cong: sum.case_cong)
qed

lemma processBlocks_again:
  assumes "\<forall>(blk, ctx)\<in>set blocks.
      imageFileNameFormat (context_options ctx) \<noteq> FormatContentHash
      \<and> \<not> forceRefreshImages (context_options ctx)"
    and "processBlocks e blocks w = (Inr outs, w1)"
    and "locales w2 = locales w" "imageOutputPath w2 = imageOutputPath w"
      "imagePrefix w2 = imagePrefix w"
    and "\<forall>(blk, ctx)\<in>set blocks. \<forall>p\<in>set (targetPaths e blk ctx w). files w2 p \<noteq> None"
  shows "\<exists>w3. processBlocks e blocks w2 = (Inr outs, w3) \<and> files w3 = files w2
     \<and> evolves w2 w3
     \<and> trace w3 = trace w2
         @ map ExistsSync (concat (map (\<lambda>(blk, ctx). targetPaths e blk ctx w) blocks))"
  using assms
proof (induction blocks arbitrary: w outs w2)
  case Nil
  then show ?case by (auto simp: evolves_refl)
next
  case (Cons b blocks)
  obtain blk ctx where b: "b = (blk, ctx)" by (cases b)
  have fmt: "imageFileNameFormat (context_options ctx) \<noteq> FormatContentHash"
    and nf: "\<not> forceRefreshImages (context_options ctx)"
    using Cons.prems(1) b by auto
  from Cons.prems(2) [unfolded b] obtain out outs' wa
    where t: "markdownToMDImageTransformer e blk ctx w = (Inr out, wa)"
      and r: "processBlocks e blocks wa = (Inr outs', w1)" and outs: "outs = out # outs'"
    by (rule processBlocks_Cons_Inr)
  from transformer_early_Inr [OF fmt t] obtain planned
    where pl: "plannedImageSet e blk ctx w = Inr planned"
      and out: "out = transformed (rewriteBlock blk planned)"
    by blast
  have ea: "evolves w wa" using markdownToMDImageTransformer_effect [OF t] by simp
  have pl2: "plannedImageSet e blk ctx w2 = Inr planned"
    using plannedImageSet_config [OF Cons.prems(3-5)] pl by simp
  have ex2: "\<forall>p\<in>set (outputPaths planned). files w2 p \<noteq> None"
    using Cons.prems(6) b pl by (simp add: targetPaths_def)
  from processImageBlock_cached [OF fmt nf pl2 ex2] obtain wb
    where wb: "processImageBlock e blk ctx w2 = (Inr (rewriteBlock blk planned), wb)"
      "files wb = files w2" "evolves w2 wb"
      "trace wb = trace w2 @ map ExistsSync (outputPaths planned)"
    by blast
  have t2: "markdownToMDImageTransformer e blk ctx w2 = (Inr out, wb)"
    using wb(1) out by (simp add: markdownToMDImageTransformer_transformed)
  have cfg: "locales wb = locales wa" "imageOutputPath wb = imageOutputPath wa"
    "imagePrefix wb = imagePrefix wa"
    using ea wb(3) Cons.prems(3-5) by (simp_all add: evolves_def)
  have tp: "targetPaths e blk' ctx' wa = targetPaths e blk' ctx' w" for blk' ctx'
    using ea by (rule targetPaths_evolves)
  have rest_all: "\<forall>(blk, ctx)\<in>set blocks.
      imageFileNameFormat (context_options ctx) \<noteq> FormatContentHash
      \<and> \<not> forceRefreshImages (context_options ctx)"
    using Cons.prems(1) by simp
  have rest_ex: "\<forall>(blk, ctx)\<in>set blocks. \<forall>p\<in>set (targetPaths e blk ctx wa). files wb p \<noteq> None"
    using Cons.prems(6) by (simp add: tp wb(2))
  from Cons.IH [OF rest_all r cfg rest_ex] obtain w3
    where w3: "processBlocks e blocks wb = (Inr outs', w3)" "files w3 = files wb"
      "evolves wb w3"
      "trace w3 = trace wb
         @ map ExistsSync (concat (map (\<lambda>(blk, ctx). targetPaths e blk ctx wa) blocks))"
    by blast
  have hd: "targetPaths e blk ctx w = outputPaths planned"
    using pl by (simp add: targetPaths_def)
  have "processBlocks e (b # blocks) w2 = (Inr outs, w3)"
    using b t2 w3(1) outs by simp
  moreover have "evolves w2 w3" using wb(3) w3(3) by (rule evolves_trans)
  moreover have "trace w3 = trace w2
         @ map ExistsSync (concat (map (\<lambda>(blk, ctx). targetPaths e blk ctx w) (b # blocks)))"
    using w3(4) wb(4) b by (simp add: tp hd)
  ultimately show ?case using w3(2) wb(2) by simp
qed

lemma rmEach_config:
  "locales (snd (rmEach ps w)) = locales w
   \<and> imageOutputPath (snd (rmEach ps w)) = imageOutputPath w
   \<and> imagePrefix (snd (rmEach ps w)) = imagePrefix w"
proof (induction ps arbitrary: w)
  case Nil
  then show ?case by simp
next
  case (Cons p ps)
  show ?case
    using Cons.IH [of "logEvent (Rm p) (w\<lparr>files := (files w)(p := None)\<rparr>)"]
    by (simp add: rm_def logEvent_def)
qed

lemma rmEach_trace:
  "ev \<in> set (trace (snd (rmEach ps w))) \<Longrightarrow> ev \<in> set (trace w) \<or> (\<exists>p. ev = Rm p)"
proof (induction ps arbitrary: w)
  case Nil
  then show ?case by simp
next
  case (Cons p ps)
  show ?case
    using Cons.prems Cons.IH [of "logEvent (Rm p) (w\<lparr>files := (files w)(p := None)\<rparr>)"]
    by (auto simp: rm_def logEvent_def split: if_splits)
qed

lemma run_Inr:
  assumes "run e blocks w = (Inr outs, w1)"
  obtains wa where "processBlocks e blocks w = (Inr outs, wa)"
    and "cleanupOldImages wa = (Inr (), w1)"
proof (cases "processBlocks e blocks w")
  case (Pair r wa)
  show ?thesis
  proof (cases r)
    case (Inl err)
    with assms Pair show ?thesis by (simp add: run_def)
  next
    case (Inr outs')
    obtain c wc where c: "cleanupOldImages wa = (c, wc)" by (cases "cleanupOldImages wa")
    with assms Pair Inr that show ?thesis by (cases c) (auto simp: run_def)
  qed
qed

text \<open>
  C1, amended: in the default and the legacy format and with \<^verbatim>\<open>forceRefreshImages\<close> not
  set, when a run (all blocks, then the sweep) has completed and the same blocks are
  processed again on the files it left, with the same configuration and whatever is listed
  as not seen yet, the second pass returns the same rewritten blocks, leaves the files as
  they are, and the only calls it makes are one \<^verbatim>\<open>existsSync\<close> for the primary path and
  for every localized path of every block, each of a file that is there; with its sweep the
  second run makes no call but those and \<^verbatim>\<open>fs.rm\<close>: no fetch and no write.
\<close>

theorem second_run_skips_everything:
  assumes "\<forall>(blk, ctx)\<in>set blocks.
      imageFileNameFormat (context_options ctx) \<noteq> FormatContentHash
      \<and> \<not> forceRefreshImages (context_options ctx)"
    and "run e blocks w = (Inr outs, w1)"
  shows "\<exists>w3.
      processBlocks e blocks (w1\<lparr>existingImagesNotSeenYetInPull := reg, trace := []\<rparr>)
        = (Inr outs, w3)
    \<and> files w3 = files w1
    \<and> trace w3 = map ExistsSync (concat (map (\<lambda>(blk, ctx). targetPaths e blk ctx w) blocks))
    \<and> (\<forall>(blk, ctx)\<in>set blocks. \<forall>p\<in>set (targetPaths e blk ctx w). files w1 p \<noteq> None)
    \<and> (\<forall>ev\<in>set (trace (snd (run e blocks
                 (w1\<lparr>existingImagesNotSeenYetInPull := reg, trace := []\<rparr>)))).
          (\<exists>p. ev = ExistsSync p) \<or> (\<exists>p. ev = Rm p))"
proof -
  let ?w2 = "w1\<lparr>existingImagesNotSeenYetInPull := reg, trace := []\<rparr>"
  from assms(2) obtain wa where first: "processBlocks e blocks w = (Inr outs, wa)"
    and sweep: "cleanupOldImages wa = (Inr (), w1)"
    by (rule run_Inr)
  have ea: "evolves w wa" using evolves_processBlocks [of w e blocks] first by simp
  have sw: "rmEach (existingImagesNotSeenYetInPull wa) wa = (Inr (), w1)"
    using sweep by (simp add: cleanupOldImages_def)
  have f1: "files w1 = files wa |` (- set (existingImagesNotSeenYetInPull wa))"
    using rmEach_Inr [OF sw] by simp
  have cfg: "locales ?w2 = locales w" "imageOutputPath ?w2 = imageOutputPath w"
    "imagePrefix ?w2 = imagePrefix w"
    using rmEach_config [of "existingImagesNotSeenYetInPull wa" wa] sw ea
    by (simp_all add: evolves_def)
  have ex1: "files w1 p \<noteq> None"
    if b: "(blk, ctx) \<in> set blocks" and p: "p \<in> set (targetPaths e blk ctx w)" for blk ctx p
  proof -
    from assms(1) b have "imageFileNameFormat (context_options ctx) \<noteq> FormatContentHash"
      by auto
    with processBlocks_allSaved [OF first] b have "allSaved (targetPaths e blk ctx w) wa"
      by auto
    with p have "files wa p \<noteq> None" "p \<notin> set (existingImagesNotSeenYetInPull wa)"
      by (simp_all add: allSaved_def)
    then show ?thesis unfolding f1 by (simp add: restrict_map_def)
  qed
  have ex: "\<forall>(blk, ctx)\<in>set blocks. \<forall>p\<in>set (targetPaths e blk ctx w). files w1 p \<noteq> None"
    using ex1 by blast
  then have ex2: "\<forall>(blk, ctx)\<in>set blocks. \<forall>p\<in>set (targetPaths e blk ctx w). files ?w2 p \<noteq> None"
    by simp
  from processBlocks_again [OF assms(1) first cfg ex2] obtain w3
    where w3: "processBlocks e blocks ?w2 = (Inr outs, w3)" "files w3 = files ?w2"
      "trace w3 = trace ?w2
         @ map ExistsSync (concat (map (\<lambda>(blk, ctx). targetPaths e blk ctx w) blocks))"
    by blast
  have tr: "trace w3 = map ExistsSync (concat (map (\<lambda>(blk, ctx). targetPaths e blk ctx w) blocks))"
    using w3(3) by simp
  have "snd (run e blocks ?w2) = snd (rmEach (existingImagesNotSeenYetInPull w3) w3)"
    using w3(1) by (simp add: run_def cleanupOldImages_def split: prod.splits sum.splits)
  then have quiet: "\<forall>ev\<in>set (trace (snd (run e blocks ?w2))).
          (\<exists>p. ev = ExistsSync p) \<or> (\<exists>p. ev = Rm p)"
    using rmEach_trace [of _ "existingImagesNotSeenYetInPull w3" w3] tr by auto
  show ?thesis
    apply (rule exI [of _ w3])
    apply (intro conjI)
        apply (rule w3(1))
       apply (simp add: w3(2))
      apply (rule tr)
     apply (rule ex)
    apply (rule quiet)
    done
qed

text \<open>
  C1, as the claim states it, for every configuration: with \<^verbatim>\<open>forceRefreshImages\<close> set,
  a first run over the block b2 completes, and the second run on the files it left fetches
  the primary image again and writes the primary and the localized file again.
\<close>

theorem forced_second_run_fetches_and_writes:
  "fst forcedFirstRun
     = Inr [(''![](/img/page.b2.png)'',
             \<lparr>block_id = ''b2'',
              block_image = \<lparr>source = External ''/img/page.b2.png'', image_caption = []\<rparr>\<rparr>)]
   \<and> trace (snd (run exampleEnv [(missingBlock, forceContext)] ((snd forcedFirstRun)\<lparr>trace := []\<rparr>)))
       = [Fetch ''https://example.com/a.png'',
          WriteAsset ''/out/page.b2.png'' ''Not Found'',
          WriteAsset ''./i18n/de/docusaurus-plugin-content-docs/current/sub/page.b2.png''
            ''Not Found'']"
  by code_simp


theorem second_run_skips_everything_witness:
  "imageFileNameFormat (context_options exampleContext) \<noteq> FormatContentHash
   \<and> \<not> forceRefreshImages (context_options exampleContext)
   \<and> fst firstRun
       = Inr [(''![Intro text. Outro.](/img/page.b1.png)'',
               \<lparr>block_id = ''b1'',
                block_image = \<lparr>source = File ''/img/page.b1.png'',
                               image_caption = [''Intro text. Outro.'']\<rparr>\<rparr>)]
   \<and> trace (snd (processBlocks exampleEnv [(exampleBlock, exampleContext)]
                  ((snd firstRun)\<lparr>existingImagesNotSeenYetInPull := [], trace := []\<rparr>)))
       = [ExistsSync ''/out/page.b1.png'',
          ExistsSync ''./i18n/de/docusaurus-plugin-content-docs/current/sub/page.b1.png'',
          ExistsSync ''./i18n/fr/docusaurus-plugin-content-docs/current/sub/page.b1.png'',
          ExistsSync ''./i18n/es/docusaurus-plugin-content-docs/current/sub/page.b1.png'']
   \<and> files (snd (processBlocks exampleEnv [(exampleBlock, exampleContext)]
                  ((snd firstRun)\<lparr>existingImagesNotSeenYetInPull := [], trace := []\<rparr>)))
       = files (snd firstRun)"
proof -
  let ?outs = "[(''![Intro text. Outro.](/img/page.b1.png)'',
               \<lparr>block_id = ''b1'',
                block_image = \<lparr>source = File ''/img/page.b1.png'',
                               image_caption = [''Intro text. Outro.'']\<rparr>\<rparr>)]"
  let ?blocks = "[(exampleBlock, exampleContext)]"
  have c: "imageFileNameFormat (context_options exampleContext) \<noteq> FormatContentHash"
    "\<not> forceRefreshImages (context_options exampleContext)"
    by (simp_all add: exampleContext_def)
  then have h1: "\<forall>(blk, ctx)\<in>set ?blocks.
      imageFileNameFormat (context_options ctx) \<noteq> FormatContentHash
      \<and> \<not> forceRefreshImages (context_options ctx)"
    by simp
  have o: "fst firstRun = Inr ?outs" by code_simp
  then have h2: "run exampleEnv ?blocks configuredWorld = (Inr ?outs, snd firstRun)"
    unfolding firstRun_def by (metis prod.collapse)
  have tp: "targetPaths exampleEnv exampleBlock exampleContext configuredWorld
      = [''/out/page.b1.png'',
         ''./i18n/de/docusaurus-plugin-content-docs/current/sub/page.b1.png'',
         ''./i18n/fr/docusaurus-plugin-content-docs/current/sub/page.b1.png'',
         ''./i18n/es/docusaurus-plugin-content-docs/current/sub/page.b1.png'']"
    by code_simp
  from second_run_skips_everything [OF h1 h2, of "[]"] obtain w3 where
    "processBlocks exampleEnv ?blocks
        ((snd firstRun)\<lparr>existingImagesNotSeenYetInPull := [], trace := []\<rparr>) = (Inr ?outs, w3)"
    and "files w3 = files (snd firstRun)"
    and "trace w3 = map ExistsSync (concat (map (\<lambda>(blk, ctx).
            targetPaths exampleEnv blk ctx configuredWorld) ?blocks))"
    by blast
  then have "trace (snd (processBlocks exampleEnv ?blocks
                  ((snd firstRun)\<lparr>existingImagesNotSeenYetInPull := [], trace := []\<rparr>)))
       = map ExistsSync (targetPaths exampleEnv exampleBlock exampleContext configuredWorld)"
    and "files (snd (processBlocks exampleEnv ?blocks
                  ((snd firstRun)\<lparr>existingImagesNotSeenYetInPull := [], trace := []\<rparr>)))
       = files (snd firstRun)"
    by simp_all
  then show ?thesis using c o unfolding tp by simp
qed

subsection \<open>Skipping and writing\<close>


















end
